theory Spec2Isabelle
  imports Complex_Main "HOL-Library.Sublist"
begin

section \<open>JavaScript string primitives used by the loader\<close>

text \<open>
  Strings are character lists.  The functions below are the \<^verbatim>\<open>String.prototype\<close>
  methods that \<^verbatim>\<open>Loader.ts\<close> and the spritesheet middleware call, with their
  results for absent matches (\<open>-1\<close>, the empty string) written out.
\<close>

fun indexOf :: "string \<Rightarrow> string \<Rightarrow> int" where
  "indexOf [] pat = (if pat = [] then 0 else - 1)"
| "indexOf (c # cs) pat =
     (if prefix pat (c # cs) then 0
      else (let r = indexOf cs pat in if r < 0 then - 1 else r + 1))"

fun lastIndexOf :: "string \<Rightarrow> string \<Rightarrow> int" where
  "lastIndexOf [] pat = (if pat = [] then 0 else - 1)"
| "lastIndexOf (c # cs) pat =
     (let r = lastIndexOf cs pat in
      if 0 \<le> r then r + 1 else if prefix pat (c # cs) then 0 else - 1)"

definition charAt :: "string \<Rightarrow> nat \<Rightarrow> string" where
  "charAt s i = (if i < length s then [s ! i] else [])"

definition slice0 :: "string \<Rightarrow> nat \<Rightarrow> string" where
  "slice0 s e = take e s"

text \<open>The word characters of a JavaScript regular expression without the unicode flag
  (ASCII letters, digits and the underscore), and the character class of
  \<^verbatim>\<open>rgxExtractUrlHash\<close>, which adds the hyphen.\<close>

definition wordChar :: "char \<Rightarrow> bool" where
  "wordChar c = (let n = (of_char c :: nat) in
     (48 \<le> n \<and> n \<le> 57) \<or> (65 \<le> n \<and> n \<le> 90) \<or> (97 \<le> n \<and> n \<le> 122) \<or> n = 95)"

definition hashChar :: "char \<Rightarrow> bool" where
  "hashChar c = (wordChar c \<or> c = CHR ''-'')"

text \<open>
  \<^verbatim>\<open>rgxExtractUrlHash.exec(s)[0]\<close>, for the pattern "an optional group of \<^verbatim>\<open>#\<close> and one or
  more characters of the class, then the end of the input": the leftmost match.
  At a position before the end the optional group has to be taken and has to reach the
  end of the string; at the end the empty match succeeds.
\<close>

fun rgxExtractUrlHash :: "string \<Rightarrow> string" where
  "rgxExtractUrlHash [] = []"
| "rgxExtractUrlHash (c # cs) =
     (if c = CHR ''#'' \<and> cs \<noteq> [] \<and> list_all hashChar cs then c # cs
      else rgxExtractUrlHash cs)"

section \<open>Loader: preparing a url\<close>

text \<open>
  \<^verbatim>\<open>parseUri\<close> lives in \<^verbatim>\<open>./base/parseUri\<close>; \<^verbatim>\<open>_prepareUrl\<close> reads two fields of
  its result, which are taken here as the record \<open>parsedUrl\<close>.
\<close>

record parsedUri =
  protocol :: string
  path :: string

record loaderConfig =
  baseUrl :: string
  defaultQueryString :: string

definition private_prepareUrl :: "parsedUri \<Rightarrow> 'a loaderConfig_scheme \<Rightarrow> string \<Rightarrow> string" where
  "private_prepareUrl parsedUrl this url =
     (let result =
        (if protocol parsedUrl \<noteq> [] \<or> path parsedUrl = [] \<or> indexOf url ''//'' = 0
         then url
         else if length (baseUrl this) \<noteq> 0
               \<and> lastIndexOf (baseUrl this) ''/'' \<noteq> int (length (baseUrl this)) - 1
               \<and> charAt url 0 \<noteq> ''/''
         then baseUrl this @ ''/'' @ url
         else baseUrl this @ url)
      in
      if defaultQueryString this \<noteq> []
      then (let hash = rgxExtractUrlHash result;
                result1 = slice0 result (length result - length hash);
                result2 = (if indexOf result1 ''?'' \<noteq> - 1
                           then result1 @ ''&'' @ defaultQueryString this
                           else result1 @ ''?'' @ defaultQueryString this)
            in result2 @ hash)
      else result)"

section \<open>Loader: the data the two files work on\<close>

text \<open>
  Values of type \<^verbatim>\<open>any\<close> (the parsed body of a resource, its metadata): JavaScript
  values as JSON can produce them, plus \<^verbatim>\<open>undefined\<close>.
\<close>

datatype jsval =
    JUndefined
  | JNull
  | JBool bool
  | JNum rat
  | JStr string
  | JArr "jsval list"
  | JObj "(string \<times> jsval) list"





text \<open>
  \<^verbatim>\<open>LoaderResource\<close> is declared in \<^verbatim>\<open>./LoaderResource\<close>.  The record has the fields
  that \<^verbatim>\<open>Loader.ts\<close> and the spritesheet middleware read or write; objects are held in
  a store and named by reference, because \<^verbatim>\<open>_add\<close> updates a parent and its children
  through the references other objects hold.
\<close>

type_synonym ref = nat

datatype resourceType =
  TYPE_UNKNOWN | TYPE_JSON | TYPE_XML | TYPE_IMAGE | TYPE_AUDIO | TYPE_VIDEO | TYPE_TEXT

datatype loadType = LOAD_TYPE_XHR | LOAD_TYPE_IMAGE | LOAD_TYPE_AUDIO | LOAD_TYPE_VIDEO

datatype xhrResponseType =
    XHR_RESPONSE_TYPE_DEFAULT | XHR_RESPONSE_TYPE_BUFFER | XHR_RESPONSE_TYPE_BLOB
  | XHR_RESPONSE_TYPE_DOCUMENT | XHR_RESPONSE_TYPE_JSON | XHR_RESPONSE_TYPE_TEXT

text \<open>
  Functions handed over as completion callbacks: one supplied by a caller, or the closure
  \<^verbatim>\<open>onImageLoad\<close> that the middleware creates for the resource it is working on.
\<close>

datatype callback = UserCallback nat | OnImageLoad ref

record resource =
  r_name :: string
  r_url :: string
  r_type :: resourceType
  r_data :: jsval
  r_crossOrigin :: jsval
  r_metadata :: jsval
  r_isDataUrl :: bool
  r_isComplete :: bool
  r_children :: "ref list"
  r_progressChunk :: real
  r_onAfterMiddleware :: "callback list"

text \<open>\<^verbatim>\<open>IAddOptions\<close>; every field is optional.\<close>

record addOptions =
  o_name :: "string option"
  o_key :: "string option"
  o_url :: "string option"
  o_crossOrigin :: jsval
  o_timeout :: "nat option"
  o_parentResource :: "ref option"
  o_loadType :: "loadType option"
  o_xhrType :: "xhrResponseType option"
  o_onComplete :: "callback option"
  o_callback :: "callback option"
  o_metadata :: jsval

text \<open>
  What the two files import from outside \<^verbatim>\<open>src/\<close> and call: \<^verbatim>\<open>parseUri\<close> in strict
  mode, the constructor of \<^verbatim>\<open>LoaderResource\<close>, and \<^verbatim>\<open>url.resolve\<close> and
  \<^verbatim>\<open>url.format(url.parse(_))\<close> of the utilities package.  They are parameters of the model.
\<close>

record externals =
  parseUri :: "string \<Rightarrow> parsedUri"
  newLoaderResource :: "string \<Rightarrow> string \<Rightarrow> addOptions option \<Rightarrow> resource"
  url_resolve :: "string \<Rightarrow> string \<Rightarrow> string"
  url_format_parse :: "string \<Rightarrow> string"

text \<open>
  The loader: the fields \<^verbatim>\<open>_add\<close> and the middleware touch.  \<^verbatim>\<open>resources\<close> keeps
  insertion order (it is walked by \<^verbatim>\<open>Object.values\<close>); \<^verbatim>\<open>queue\<close> is the list of tasks
  pushed to \<^verbatim>\<open>_queue\<close> (\<^verbatim>\<open>AsyncQueue\<close> is declared in \<^verbatim>\<open>./base/AsyncQueue\<close>; its
  \<^verbatim>\<open>push\<close> is taken to append the task to \<^verbatim>\<open>_tasks\<close>, the list \<^verbatim>\<open>load\<close> reads);
  \<open>heap\<close> is the object store and \<open>nextRef\<close> the next unused reference.
\<close>

record loader = loaderConfig +
  loading :: bool
  resources :: "(string \<times> ref) list"
  queue :: "ref list"
  heap :: "ref \<Rightarrow> resource"
  nextRef :: ref

datatype error = Error string | TypeError | IllTyped

text \<open>
  \<^verbatim>\<open>this.resources\<close> is created as \<^verbatim>\<open>{}\<close>, so \<^verbatim>\<open>this.resources[name]\<close> is truthy for a
  registered name and also for the members that every object inherits.
\<close>

definition objectPrototypeNames :: "string list" where
  "objectPrototypeNames =
     [''constructor'', ''__defineGetter__'', ''__defineSetter__'', ''hasOwnProperty'',
      ''__lookupGetter__'', ''__lookupSetter__'', ''isPrototypeOf'', ''propertyIsEnumerable'',
      ''toString'', ''valueOf'', ''__proto__'', ''toLocaleString'']"

definition resourcesHas :: "loader \<Rightarrow> string \<Rightarrow> bool" where
  "resourcesHas this n = (map_of (resources this) n \<noteq> None \<or> n \<in> set objectPrototypeNames)"

section \<open>Loader: adding a resource\<close>

text \<open>The branch of \<^verbatim>\<open>_add\<close> taken while loading: the parent's progress chunk is shared
  out again between the parent, its incomplete children and the new child.\<close>

definition adjustChunks :: "loader \<Rightarrow> ref \<Rightarrow> ref \<Rightarrow> loader" where
  "adjustChunks this parent new =
     (let incompleteChildren =
            filter (\<lambda>c. \<not> r_isComplete (heap this c)) (r_children (heap this parent));
          fullChunk = r_progressChunk (heap this parent) * real (length incompleteChildren + 1);
          eachChunk = fullChunk / real (length incompleteChildren + 2);
          h1 = (heap this)(parent := (heap this parent)
                  \<lparr>r_children := r_children (heap this parent) @ [new]\<rparr>);
          h2 = h1(parent := (h1 parent)\<lparr>r_progressChunk := eachChunk\<rparr>);
          h3 = fold (\<lambda>c h. h(c := (h c)\<lparr>r_progressChunk := eachChunk\<rparr>)) incompleteChildren h2;
          h4 = h3(new := (h3 new)\<lparr>r_progressChunk := eachChunk\<rparr>)
      in this\<lparr>heap := h4\<rparr>)"

text \<open>
  \<^verbatim>\<open>_add\<close>.  The result is the error thrown, if any, and the loader as the call
  leaves it.
\<close>

definition private_add ::
  "externals \<Rightarrow> loader \<Rightarrow> string \<Rightarrow> string \<Rightarrow> addOptions option \<Rightarrow> callback option
     \<Rightarrow> error option \<times> loader" where
  "private_add ext this name url options callback =
     (if loading this \<and> (case options of None \<Rightarrow> True | Some opts \<Rightarrow> o_parentResource opts = None)
      then (Some (Error ''Cannot add resources while the loader is running.''), this)
      else if resourcesHas this name
      then (Some (Error (''Resource named '' @ [CHR 0x22] @ name @ [CHR 0x22] @ '' already exists.'')), this)
      else
        (let url1 = private_prepareUrl (parseUri ext url) this url;
             new = nextRef this;
             this1 = this\<lparr>heap := (heap this)(new := newLoaderResource ext name url1 options),
                         nextRef := Suc new,
                         resources := resources this @ [(name, new)]\<rparr>;
             this2 = (case callback of
                        Some cb \<Rightarrow> this1\<lparr>heap := (heap this1)(new := (heap this1 new)
                             \<lparr>r_onAfterMiddleware := r_onAfterMiddleware (heap this1 new) @ [cb]\<rparr>)\<rparr>
                      | None \<Rightarrow> this1);
             this3 = (if loading this2
                      then (case options of
                              Some opts \<Rightarrow>
                                (case o_parentResource opts of
                                   Some parent \<Rightarrow> adjustChunks this2 parent new
                                 | None \<Rightarrow> this2)
                            | None \<Rightarrow> this2)
                      else this2)
         in (None, this3\<lparr>queue := queue this3 @ [new]\<rparr>)))"

text \<open>
  \<^verbatim>\<open>add\<close>, by the overloads of \<^verbatim>\<open>ILoaderAdd\<close>.  A call with a name, a url and a callback
  but no options is \<open>AddNameUrl\<close> with \<open>None\<close> for the options, and likewise for a lone
  url.
\<close>

datatype addArgs =
    AddNameUrl string string "addOptions option" "callback option"
  | AddUrl string "addOptions option" "callback option"
  | AddOptions addOptions "callback option"
  | AddArray "(addOptions + string) list" "callback option"

text \<open>\<^verbatim>\<open>a || b\<close> on optional strings and on optional callbacks.\<close>

definition orStr :: "string option \<Rightarrow> string option \<Rightarrow> string option" where
  "orStr a b = (case a of Some s \<Rightarrow> (if s \<noteq> [] then a else b) | None \<Rightarrow> b)"

definition orCb :: "callback option \<Rightarrow> callback option \<Rightarrow> callback option" where
  "orCb a b = (case a of Some c \<Rightarrow> a | None \<Rightarrow> b)"

text \<open>
  The object form.  Without a \<^verbatim>\<open>url\<close> field the arguments are shifted: the name becomes
  the url, the options are dropped and the options object lands in the callback position,
  where it is ignored for not being a function.
\<close>

definition add_options ::
  "externals \<Rightarrow> loader \<Rightarrow> addOptions \<Rightarrow> callback option \<Rightarrow> error option \<times> loader" where
  "add_options ext this opts cb =
     (let callback = orCb cb (orCb (o_callback opts) (o_onComplete opts));
          url = o_url opts;
          name = orStr (o_name opts) (orStr (o_key opts) (o_url opts))
      in case url of
           Some u \<Rightarrow>
             (case name of
                Some n \<Rightarrow> private_add ext this n u (Some opts) callback
              | None \<Rightarrow> private_add ext this u u (Some opts) callback)
         | None \<Rightarrow>
             (case name of
                Some n \<Rightarrow> private_add ext this n n None None
              | None \<Rightarrow> (Some (Error ''No url passed to add resource to loader.''), this)))"

fun add_each ::
  "externals \<Rightarrow> (addOptions + string) list \<Rightarrow> loader \<Rightarrow> error option \<times> loader" where
  "add_each ext [] this = (None, this)"
| "add_each ext (x # xs) this =
     (case (case x of Inl opts \<Rightarrow> add_options ext this opts None
                    | Inr u \<Rightarrow> private_add ext this u u None None) of
        (Some e, this1) \<Rightarrow> (Some e, this1)
      | (None, this1) \<Rightarrow> add_each ext xs this1)"

fun Loader_add :: "externals \<Rightarrow> loader \<Rightarrow> addArgs \<Rightarrow> error option \<times> loader" where
  "Loader_add ext this (AddArray xs cb) = add_each ext xs this"
| "Loader_add ext this (AddOptions opts cb) = add_options ext this opts cb"
| "Loader_add ext this (AddUrl u options cb) = private_add ext this u u options cb"
| "Loader_add ext this (AddNameUrl n u options cb) = private_add ext this n u options cb"

section \<open>The spritesheet middleware\<close>





section \<open>Graphics geometry: data model\<close>

text \<open>
  The geometry batching pipeline (the graphics geometry class, its batch parts and draw
  calls) is code of this repository that is not under \<^verbatim>\<open>src/\<close>.  Everything in this
  and the next three sections is modelled from the specification, sections 3 and 4.
  Coordinates, alpha values and texture sizes are real numbers.
\<close>

type_synonym vertex = "real \<times> real"

text \<open>Modelled from the spec: an affine transform or UV matrix (rotation, scale, offset)
  and its application to a position; the matrix class is missing.\<close>

record matrix =
  ma :: real
  mb :: real
  mc :: real
  md :: real
  mtx :: real
  mty :: real

definition applyMatrix :: "matrix \<Rightarrow> vertex \<Rightarrow> vertex" where
  "applyMatrix m p =
     (ma m * fst p + mc m * snd p + mtx m, mb m * fst p + md m * snd p + mty m)"

text \<open>Modelled from the spec: a texture of the missing texture class.  \<open>baseTexture\<close> is
  the identity of the underlying texture resource; the frame is the sub-region of the
  base image that the texture stands for (glossary, section 4.3).\<close>

record texture =
  baseTexture :: nat
  baseWidth :: real
  baseHeight :: real
  frameWidth :: real
  frameHeight :: real
  frameOffsetU :: real
  frameOffsetV :: real

text \<open>Modelled from the spec: a fill or line style (section 3: visible flag, color, alpha,
  texture reference, optional UV matrix, optional native-line flag; an absent flag counts
  as not native); the style classes are missing.\<close>

record style =
  visible :: bool
  color :: nat
  alpha :: real
  styleTexture :: texture
  uvMatrix :: "matrix option"
  native :: bool

text \<open>Modelled from the spec: the closed set of shape kinds (sections 3 and 9); the shape
  classes are missing.\<close>

datatype shape =
    Circle real real real
  | Ellipse real real real real
  | Polygon "vertex list"
  | Rectangle real real real real
  | RoundedRectangle real real real real real

text \<open>Modelled from the spec: the shape record (section 3): shape, fill and line style,
  optional transform, hole records, and the local point list that the build step of the
  tessellation capability populates; the record class is missing.\<close>

datatype shapeRecord =
  ShapeRecord (recShape: shape) (fillStyle: "style option") (lineStyle: "style option")
    (transform: "matrix option") (holes: "shapeRecord list") (localPoints: "vertex list")

text \<open>Modelled from the spec: a batch part (section 3).  An open part is what \<open>begin\<close>
  initialises, the style and the start offsets; \<open>end\<close> closes it with the end offsets and
  the derived sizes.  The batch part class is missing.\<close>

record openPart =
  op_style :: style
  op_indexStart :: nat
  op_attribStart :: nat

record batchPart =
  bp_style :: style
  indexStart :: nat
  indexEnd :: nat
  attribStart :: nat
  attribEnd :: nat
  partSize :: nat
  attribSize :: nat

definition beginPart :: "style \<Rightarrow> nat \<Rightarrow> nat \<Rightarrow> openPart" where
  "beginPart st i a = \<lparr>op_style = st, op_indexStart = i, op_attribStart = a\<rparr>"

definition endPart :: "openPart \<Rightarrow> nat \<Rightarrow> nat \<Rightarrow> batchPart" where
  "endPart p i a =
     \<lparr>bp_style = op_style p,
      indexStart = op_indexStart p, indexEnd = i,
      attribStart = op_attribStart p, attribEnd = a,
      partSize = i - op_indexStart p, attribSize = a - op_attribStart p\<rparr>"

text \<open>Modelled from the spec: a draw call (section 3): bound base textures, primitive
  type, start and size over the index buffer; the draw call class is missing.\<close>

datatype primitiveType = TRIANGLES | LINES

record drawCall =
  textureArray :: "nat list"
  dc_type :: primitiveType
  dc_start :: nat
  dc_size :: nat

text \<open>Modelled from the spec: the index buffer, typed by its width (sections 3 and 4.1,
  step 5), and one vertex of the packed attribute buffer (section 4.6: position, UV,
  packed color, texture-unit id).  A field of a packed vertex is \<open>None\<close> where the array
  it is read from has no entry for the vertex.\<close>

datatype indexWidth = Bits16 | Bits32

record indexBuffer =
  ib_width :: indexWidth
  ib_data :: "nat list"

record packedVertex =
  pv_position :: vertex
  pv_uv :: "vertex option"
  pv_color :: "nat option"
  pv_textureId :: "nat option"

text \<open>Modelled from the spec: the geometry (section 3): the shape list, the shared
  per-vertex arrays and the index array, the batch parts, the draw calls, the dirty
  counters and the resume cursor, the batchable flag and the two buffers handed to the
  upload stage (section 6).  The geometry class is missing.\<close>

record geometry =
  shapes :: "shapeRecord list"
  dirty :: int
  cacheDirty :: int
  batchDirty :: int
  shapeIndex :: nat
  points :: "vertex list"
  indices :: "nat list"
  uvs :: "vertex list"
  colors :: "nat list"
  textureIds :: "nat list"
  batches :: "batchPart list"
  drawCalls :: "drawCall list"
  batchable :: bool
  indexBuf :: "indexBuffer option"
  packed :: "packedVertex list"

text \<open>Modelled from the spec: the process-wide state (sections 3, 5 and 9): the global
  batch tick, the mark each base texture carries (the tick it was last bound at and its
  slot), the textures forced to repeating wrap mode, the occupancy of the two pools, and
  the instrumented log of calls to the tessellation capability (section 8), one entry per
  call, naming the position of the shape in the shape list.\<close>

record world =
  globalTick :: nat
  marks :: "nat \<Rightarrow> (nat \<times> nat) option"
  repeatWrap :: "nat set"
  batchPool :: nat
  drawCallPool :: nat
  tessLog :: "nat list"

text \<open>Modelled from the spec: the two configurable numbers: the texture slots of a draw
  call (\<open>N\<close>, default 8) and the batchable threshold (default 100 vertices).\<close>

record settings =
  maxTextures :: nat
  batchableSize :: nat


text \<open>Modelled from the spec: the consumed collaborators (sections 1 and 6).  \<open>build\<close>
  returns the local point list of a record.  The triangulators are given the record and
  the target position and index arrays, and return what they append to each: the
  shape-specific fill triangulator, the polygon-with-holes algorithm, and the line builder.
  \<open>packColor\<close> premultiplies a color by an alpha and swizzles it to upload byte order
  (section 4.5).\<close>

record capability =
  build :: "shapeRecord \<Rightarrow> vertex list"
  triangulate :: "shapeRecord \<Rightarrow> vertex list \<Rightarrow> nat list \<Rightarrow> vertex list \<times> nat list"
  triangulateHoles :: "shapeRecord \<Rightarrow> vertex list \<Rightarrow> nat list \<Rightarrow> vertex list \<times> nat list"
  buildLine :: "shapeRecord \<Rightarrow> vertex list \<Rightarrow> nat list \<Rightarrow> vertex list \<times> nat list"
  packColor :: "nat \<Rightarrow> real \<Rightarrow> nat"

section \<open>Graphics geometry: style comparator and draw-call compiler\<close>

text \<open>Modelled from the spec: the combined color and alpha key of a style (section 4.2),
  the alpha added to the color value.\<close>

definition colorAlphaKey :: "style \<Rightarrow> real" where
  "colorAlphaKey s = real (color s) + alpha s"

text \<open>Modelled from the spec: \<open>mergeable(a, b)\<close> (section 4.2); the comparator is
  missing.\<close>

definition mergeable :: "style option \<Rightarrow> style option \<Rightarrow> bool" where
  "mergeable a b =
     (case a of
        None \<Rightarrow> False
      | Some sa \<Rightarrow>
          (case b of
             None \<Rightarrow> False
           | Some sb \<Rightarrow>
               baseTexture (styleTexture sa) = baseTexture (styleTexture sb)
               \<and> colorAlphaKey sa = colorAlphaKey sb
               \<and> native sa = native sb))"

text \<open>Modelled from the spec: the primitive type a batch part is drawn with (glossary:
  a native line is drawn with the line primitive).\<close>

definition primitiveOf :: "style \<Rightarrow> primitiveType" where
  "primitiveOf st = (if native st then LINES else TRIANGLES)"

text \<open>Modelled from the spec: writing one value over an attribute range of a per-vertex
  array (section 4.5, last step).  An array that is too short grows; entries it had no
  value for are zero.\<close>

definition writeRange :: "nat list \<Rightarrow> nat \<Rightarrow> nat \<Rightarrow> nat \<Rightarrow> nat list" where
  "writeRange xs start n v =
     take start (xs @ replicate (start - length xs) 0) @ replicate n v @ drop (start + n) xs"

text \<open>Modelled from the spec: the state of the greedy pass (section 4.5): the current draw
  call, the current primitive type, the count of textures bound in the current call, the
  running index cursor, the calls closed so far, and the two per-vertex arrays being
  written.  The global tick and the marks are in the world.\<close>

record compileState =
  cs_world :: world
  cs_current :: drawCall
  cs_type :: primitiveType
  cs_count :: nat
  cs_cursor :: nat
  cs_closed :: "drawCall list"
  cs_colors :: "nat list"
  cs_textureIds :: "nat list"

text \<open>Modelled from the spec: taking a draw call from the pool, or allocating one when the
  pool is empty (section 9); only the occupancy of the pool is kept.\<close>

definition acquireDrawCall :: "world \<Rightarrow> world" where
  "acquireDrawCall w = w\<lparr>drawCallPool := drawCallPool w - 1\<rparr>"

text \<open>Modelled from the spec: a change of primitive type relative to the previous part
  (section 4.5): the texture budget of the current call is treated as exhausted and the
  tick advances.\<close>

definition changeType :: "settings \<Rightarrow> compileState \<Rightarrow> style \<Rightarrow> compileState" where
  "changeType cfg s st =
     (if primitiveOf st \<noteq> cs_type s
      then s\<lparr>cs_type := primitiveOf st,
             cs_count := maxTextures cfg,
             cs_world := (cs_world s)\<lparr>globalTick := globalTick (cs_world s) + 1\<rparr>\<rparr>
      else s)"

text \<open>Modelled from the spec: the slot of a texture that is marked with the current tick,
  that is, already bound in the call in progress (section 4.5).\<close>

definition boundSlot :: "world \<Rightarrow> nat \<Rightarrow> nat option" where
  "boundSlot w tex =
     (case marks w tex of
        Some (t, slot) \<Rightarrow> if t = globalTick w then Some slot else None
      | None \<Rightarrow> None)"

text \<open>Modelled from the spec: closing the current call and opening a fresh one at the
  index cursor, with the slot count reset and the tick advanced (section 4.5).\<close>

definition openFreshCall :: "compileState \<Rightarrow> compileState" where
  "openFreshCall s =
     s\<lparr>cs_closed := cs_closed s @ [cs_current s],
       cs_current := \<lparr>textureArray = [], dc_type = cs_type s,
                       dc_start = cs_cursor s, dc_size = 0\<rparr>,
       cs_count := 0,
       cs_world := (acquireDrawCall (cs_world s))\<lparr>globalTick := globalTick (cs_world s) + 1\<rparr>\<rparr>"

text \<open>Modelled from the spec: binding a texture to the next free slot of the current
  call, marking it with the tick and incrementing the slot count (section 4.5).\<close>

definition bindTexture :: "compileState \<Rightarrow> nat \<Rightarrow> compileState" where
  "bindTexture s tex =
     s\<lparr>cs_current := (cs_current s)\<lparr>textureArray := textureArray (cs_current s) @ [tex]\<rparr>,
       cs_world := (cs_world s)\<lparr>marks := (marks (cs_world s))
                                   (tex \<mapsto> (globalTick (cs_world s), cs_count s))\<rparr>,
       cs_count := cs_count s + 1\<rparr>"

text \<open>Modelled from the spec: the slot for a part's texture (section 4.5).  A texture
  marked with the current tick keeps its recorded slot.  Any other texture first closes
  the current call if the maximum of slots is occupied (a hard \<open>\<ge>\<close>), and is then bound.\<close>

definition assignSlot :: "settings \<Rightarrow> compileState \<Rightarrow> nat \<Rightarrow> compileState \<times> nat" where
  "assignSlot cfg s tex =
     (case boundSlot (cs_world s) tex of
        Some slot \<Rightarrow> (s, slot)
      | None \<Rightarrow>
          (let s2 = (if cs_count s \<ge> maxTextures cfg then openFreshCall s else s)
           in (bindTexture s2 tex, cs_count s2)))"

text \<open>Modelled from the spec: the last two steps for a part (section 4.5): its size is
  added to the current call and to the index cursor, and the packed color and the slot are
  written over its attribute range.\<close>

definition accumulate :: "capability \<Rightarrow> compileState \<Rightarrow> batchPart \<Rightarrow> nat \<Rightarrow> compileState" where
  "accumulate cap s p slot =
     s\<lparr>cs_current := (cs_current s)\<lparr>dc_size := dc_size (cs_current s) + partSize p\<rparr>,
       cs_cursor := cs_cursor s + partSize p,
       cs_colors := writeRange (cs_colors s) (attribStart p) (attribSize p)
                      (packColor cap (color (bp_style p)) (alpha (bp_style p))),
       cs_textureIds := writeRange (cs_textureIds s) (attribStart p) (attribSize p) slot\<rparr>"

text \<open>Modelled from the spec: one step of the greedy pass, for one batch part
  (section 4.5).\<close>

definition compileStep :: "capability \<Rightarrow> settings \<Rightarrow> compileState \<Rightarrow> batchPart \<Rightarrow> compileState" where
  "compileStep cap cfg s p =
     (let s1 = changeType cfg s (bp_style p);
          r = assignSlot cfg s1 (baseTexture (styleTexture (bp_style p)))
      in accumulate cap (fst r) p (snd r))"

text \<open>Modelled from the spec: the draw-call compiler (section 4.5).  A compilation runs
  under a tick of its own, so it starts by advancing the global tick; the draw calls of
  the previous compilation go back to the pool; the first call is opened at offset 0 with
  the primitive type of the first part, so the first part is no change of type; at the end
  the current call joins the closed ones.\<close>

definition compileStart :: "world \<Rightarrow> geometry \<Rightarrow> compileState" where
  "compileStart w g =
     (let ty = (case batches g of [] \<Rightarrow> TRIANGLES | p # ps \<Rightarrow> primitiveOf (bp_style p));
          w1 = w\<lparr>globalTick := globalTick w + 1,
                 drawCallPool := drawCallPool w + length (drawCalls g)\<rparr>
      in \<lparr>cs_world = acquireDrawCall w1,
          cs_current = \<lparr>textureArray = [], dc_type = ty, dc_start = 0, dc_size = 0\<rparr>,
          cs_type = ty,
          cs_count = 0,
          cs_cursor = 0,
          cs_closed = [],
          cs_colors = colors g,
          cs_textureIds = textureIds g\<rparr>)"

text \<open>Modelled from the spec: the single pass over the ordered batch parts
  (section 4.5).\<close>

definition compileParts :: "capability \<Rightarrow> settings \<Rightarrow> compileState \<Rightarrow> batchPart list \<Rightarrow> compileState" where
  "compileParts cap cfg s ps = foldl (compileStep cap cfg) s ps"

text \<open>Modelled from the spec: the output list of a compilation: the closed calls and
  the call that is current at the end.\<close>

definition compiledCalls :: "compileState \<Rightarrow> drawCall list" where
  "compiledCalls s = cs_closed s @ [cs_current s]"

text \<open>Modelled from the spec: the draw-call compiler as a step of the rebuild: the draw
  calls and the two per-vertex arrays it wrote go to the geometry, the tick and the marks
  stay with the world.\<close>

definition buildDrawCalls :: "capability \<Rightarrow> settings \<Rightarrow> world \<times> geometry \<Rightarrow> world \<times> geometry" where
  "buildDrawCalls cap cfg wg =
     (let s = compileParts cap cfg (compileStart (fst wg) (snd wg)) (batches (snd wg))
      in (cs_world s,
          (snd wg)\<lparr>drawCalls := compiledCalls s,
                   colors := cs_colors s,
                   textureIds := cs_textureIds s\<rparr>))"

section \<open>Graphics geometry: UV mapper, batch-part builder, classifier, packer\<close>

text \<open>Modelled from the spec: the UV of one vertex before the atlas correction
  (section 4.3): the optional UV matrix is applied to the local position and the result is
  divided by the frame's width and height.\<close>

definition rawUv :: "texture \<Rightarrow> matrix option \<Rightarrow> vertex \<Rightarrow> vertex" where
  "rawUv tex m p =
     (let q = (case m of None \<Rightarrow> p | Some mm \<Rightarrow> applyMatrix mm p)
      in (fst q / frameWidth tex, snd q / frameHeight tex))"

text \<open>Modelled from the spec: the minimum integer wrap cell of one axis over the UVs just
  written (section 4.3).\<close>

definition minWrap :: "real list \<Rightarrow> real" where
  "minWrap us =
     (case us of
        [] \<Rightarrow> 0
      | u # rest \<Rightarrow> foldl (\<lambda>m x. min m (of_int \<lfloor>x\<rfloor>)) (of_int \<lfloor>u\<rfloor>) rest)"

text \<open>Modelled from the spec: the adjustment pass for a frame that is smaller than its
  base texture (section 4.3).\<close>

definition adjustUvs :: "texture \<Rightarrow> vertex list \<Rightarrow> vertex list" where
  "adjustUvs tex uvl =
     (let minU = minWrap (map fst uvl);
          minV = minWrap (map snd uvl)
      in map (\<lambda>uv. ((fst uv + frameOffsetU tex - minU) * (frameWidth tex / baseWidth tex),
                     (snd uv + frameOffsetV tex - minV) * (frameHeight tex / baseHeight tex)))
           uvl)"

text \<open>Modelled from the spec: the UV mapper for a contiguous vertex range (section 4.3);
  the adjustment is skipped for full-frame textures.\<close>

definition addUvs :: "texture \<Rightarrow> matrix option \<Rightarrow> vertex list \<Rightarrow> vertex list" where
  "addUvs tex m verts =
     (let raw = map (rawUv tex m) verts
      in if frameWidth tex < baseWidth tex \<or> frameHeight tex < baseHeight tex
         then adjustUvs tex raw
         else raw)"

text \<open>Modelled from the spec: the state of a rebuild (section 4.1): the world, the
  geometry and the batch part that is open, if one is.\<close>

record buildState =
  bs_world :: world
  bs_geom :: geometry
  bs_open :: "openPart option"

text \<open>Modelled from the spec: whether a style is present and visible.\<close>

definition isVisible :: "style option \<Rightarrow> bool" where
  "isVisible so = (case so of None \<Rightarrow> False | Some st \<Rightarrow> visible st)"

text \<open>Modelled from the spec: step 1 of the builder (section 4.1), also the hole-processing
  step of step 2: the build step produces the local point list and the record's transform,
  if any, is applied to it in place.\<close>

definition buildRecord :: "capability \<Rightarrow> shapeRecord \<Rightarrow> shapeRecord" where
  "buildRecord cap sr =
     (let pts = build cap sr;
          pts1 = (case transform sr of None \<Rightarrow> pts | Some m \<Rightarrow> map (applyMatrix m) pts)
      in ShapeRecord (recShape sr) (fillStyle sr) (lineStyle sr) (transform sr) (holes sr) pts1)"

text \<open>Modelled from the spec: fill triangulation (section 4.1, step 3b): the
  polygon-with-holes algorithm if holes exist, else the shape-specific triangulator.\<close>

definition processFill ::
  "capability \<Rightarrow> shapeRecord \<Rightarrow> vertex list \<Rightarrow> nat list \<Rightarrow> vertex list \<times> nat list" where
  "processFill cap sr pts idx =
     (if holes sr \<noteq> [] then triangulateHoles cap sr pts idx else triangulate cap sr pts idx)"

text \<open>Modelled from the spec: line triangulation (section 4.1, step 3b): the line builder
  applied to the shape and independently to each hole, each application appending behind
  the previous one.\<close>

fun lineOver ::
  "capability \<Rightarrow> shapeRecord list \<Rightarrow> vertex list \<Rightarrow> nat list \<Rightarrow> vertex list \<times> nat list" where
  "lineOver cap [] pts idx = ([], [])"
| "lineOver cap (r # rs) pts idx =
     (let a = buildLine cap r pts idx;
          b = lineOver cap rs (pts @ fst a) (idx @ snd a)
      in (fst a @ fst b, snd a @ snd b))"

definition processLine ::
  "capability \<Rightarrow> shapeRecord \<Rightarrow> vertex list \<Rightarrow> nat list \<Rightarrow> vertex list \<times> nat list" where
  "processLine cap sr pts idx = lineOver cap (sr # holes sr) pts idx"

text \<open>Modelled from the spec: taking a batch part from the pool, or allocating one when
  the pool is empty (section 9); only the occupancy of the pool is kept.\<close>

definition acquireBatchPart :: "world \<Rightarrow> world" where
  "acquireBatchPart w = w\<lparr>batchPool := batchPool w - 1\<rparr>"

text \<open>Modelled from the spec: step 3 of the builder for one style of one shape
  (section 4.1, steps 3a to 3f).  \<open>i\<close> is the position of the shape in the shape list,
  \<open>isFill\<close> tells the fill from the line.  Nothing happens for an absent or invisible
  style.  Otherwise the texture is forced to repeating wrap mode and the triangulation
  appends to the position and index arrays.  If it appended no vertex the style is skipped.
  Else an open part whose style is not mergeable with this one is closed at the offsets
  from before the triangulation; if no part is open then, one is acquired and opened at
  those offsets; and the UVs of the new vertex range are appended.\<close>

definition processStyle ::
  "capability \<Rightarrow> nat \<Rightarrow> shapeRecord \<Rightarrow> bool \<Rightarrow> buildState \<Rightarrow> buildState" where
  "processStyle cap i sr isFill s =
     (case (if isFill then fillStyle sr else lineStyle sr) of
        None \<Rightarrow> s
      | Some st \<Rightarrow>
          if \<not> visible st then s
          else
            (let g = bs_geom s;
                 w = bs_world s;
                 index = length (indices g);
                 attribIndex = length (points g);
                 w1 = w\<lparr>repeatWrap := insert (baseTexture (styleTexture st)) (repeatWrap w),
                        tessLog := tessLog w
                           @ replicate (if isFill then 1 else 1 + length (holes sr)) i\<rparr>;
                 new = (if isFill then processFill cap sr (points g) (indices g)
                        else processLine cap sr (points g) (indices g));
                 g1 = g\<lparr>points := points g @ fst new, indices := indices g @ snd new\<rparr>
             in if length (fst new) = 0
                then s\<lparr>bs_world := w1, bs_geom := g1\<rparr>
                else
                  (let closing = (case bs_open s of
                                    Some p \<Rightarrow> \<not> mergeable (Some (op_style p)) (Some st)
                                  | None \<Rightarrow> False);
                       bs1 = (case bs_open s of
                                Some p \<Rightarrow>
                                  if closing then batches g1 @ [endPart p index attribIndex]
                                  else batches g1
                              | None \<Rightarrow> batches g1);
                       open1 = (if closing then None else bs_open s);
                       w2 = (case open1 of None \<Rightarrow> acquireBatchPart w1 | Some p \<Rightarrow> w1);
                       open2 = (case open1 of
                                  None \<Rightarrow> beginPart st index attribIndex
                                | Some p \<Rightarrow> p)
                   in \<lparr>bs_world = w2,
                       bs_geom = g1\<lparr>batches := bs1,
                                    uvs := uvs g1
                                      @ addUvs (styleTexture st) (uvMatrix st) (fst new)\<rparr>,
                       bs_open = Some open2\<rparr>)))"

text \<open>Modelled from the spec: steps 1 and 2 of the builder for one shape (section 4.1):
  the shape is built, and if either of its styles is visible each of its holes is built
  too.  \<open>buildCalls\<close> is the number of build calls this makes to the tessellation
  capability.\<close>

definition buildWithHoles :: "capability \<Rightarrow> shapeRecord \<Rightarrow> shapeRecord" where
  "buildWithHoles cap sr =
     (let sr1 = buildRecord cap sr
      in if isVisible (fillStyle sr1) \<or> isVisible (lineStyle sr1)
         then ShapeRecord (recShape sr1) (fillStyle sr1) (lineStyle sr1) (transform sr1)
                (map (buildRecord cap) (holes sr1)) (localPoints sr1)
         else sr1)"

definition buildCalls :: "capability \<Rightarrow> shapeRecord \<Rightarrow> nat" where
  "buildCalls cap sr =
     (let sr1 = buildRecord cap sr
      in if isVisible (fillStyle sr1) \<or> isVisible (lineStyle sr1)
         then 1 + length (holes sr1)
         else 1)"

text \<open>Modelled from the spec: the body of the builder's loop for the shape at the resume
  cursor (section 4.1, steps 1 to 3): build the shape and its holes, then the fill and
  then the line.  The build calls are logged and the cursor moves on.\<close>

definition processShape :: "capability \<Rightarrow> buildState \<Rightarrow> buildState" where
  "processShape cap s =
     (let g = bs_geom s;
          i = shapeIndex g
      in if i < length (shapes g)
         then
           (let sr = buildWithHoles cap (shapes g ! i);
                w1 = (bs_world s)\<lparr>tessLog := tessLog (bs_world s)
                         @ replicate (buildCalls cap (shapes g ! i)) i\<rparr>;
                s1 = s\<lparr>bs_world := w1,
                       bs_geom := g\<lparr>shapes := (shapes g)[i := sr], shapeIndex := i + 1\<rparr>\<rparr>
            in processStyle cap i sr False (processStyle cap i sr True s1))
         else s)"

text \<open>Modelled from the spec: the builder's loop (section 4.1): every shape record from the
  resume cursor to the end.\<close>

definition buildLoop :: "capability \<Rightarrow> buildState \<Rightarrow> buildState" where
  "buildLoop cap s =
     (processShape cap ^^ (length (shapes (bs_geom s)) - shapeIndex (bs_geom s))) s"

text \<open>Modelled from the spec: resuming (section 3, \<open>shapeIndex\<close>: a later build extends the
  work of the prior one).  The builder starts with the last batch part of the prior build
  open again, at its own start offsets, so that consecutive mergeable styles land in one
  part across builds too (section 8).\<close>

definition resumeBuild :: "world \<Rightarrow> geometry \<Rightarrow> buildState" where
  "resumeBuild w g =
     (case batches g of
        [] \<Rightarrow> \<lparr>bs_world = w, bs_geom = g, bs_open = None\<rparr>
      | p # ps \<Rightarrow>
          \<lparr>bs_world = w,
           bs_geom = g\<lparr>batches := butlast (batches g)\<rparr>,
           bs_open = Some (beginPart (bp_style (last (batches g)))
                             (indexStart (last (batches g)))
                             (attribStart (last (batches g))))\<rparr>)"

text \<open>Modelled from the spec: closing the part that is still open after the loop
  (section 4.1, step 4).\<close>

definition closeOpen :: "buildState \<Rightarrow> geometry" where
  "closeOpen s =
     (case bs_open s of
        None \<Rightarrow> bs_geom s
      | Some p \<Rightarrow>
          (bs_geom s)\<lparr>batches := batches (bs_geom s)
             @ [endPart p (length (indices (bs_geom s))) (length (points (bs_geom s)))]\<rparr>)"

text \<open>Modelled from the spec: the choice of the index width and of the typed buffer
  (section 4.1, step 5): 16-bit unless the total vertex count exceeds 65535; the existing
  buffer is reused if its size and width class are unchanged, else one is allocated.\<close>

definition chooseIndexBuffer :: "geometry \<Rightarrow> geometry" where
  "chooseIndexBuffer g =
     (let need32 = (length (points g) > 65535);
          w = (if need32 then Bits32 else Bits16)
      in case indexBuf g of
           Some b \<Rightarrow>
             if length (ib_data b) = length (indices g) \<and> ib_width b = w
             then g\<lparr>indexBuf := Some (b\<lparr>ib_data := indices g\<rparr>)\<rparr>
             else g\<lparr>indexBuf := Some \<lparr>ib_width = w, ib_data = indices g\<rparr>\<rparr>
         | None \<Rightarrow> g\<lparr>indexBuf := Some \<lparr>ib_width = w, ib_data = indices g\<rparr>\<rparr>)"

text \<open>Modelled from the spec: the batchability classifier (section 4.4).\<close>

definition isBatchable :: "settings \<Rightarrow> geometry \<Rightarrow> bool" where
  "isBatchable cfg g =
     (length (points g) \<le> batchableSize cfg
      \<and> \<not> list_ex (\<lambda>p. native (bp_style p)) (batches g)
      \<and> length (points g) \<le> 65535)"

text \<open>Modelled from the spec: reading a per-vertex array where it may have no entry.\<close>

definition nthOpt :: "'a list \<Rightarrow> nat \<Rightarrow> 'a option" where
  "nthOpt xs i = (if i < length xs then Some (xs ! i) else None)"

text \<open>Modelled from the spec: the attribute packer (section 4.6): one packed vertex per
  position, in order; the index buffer is handed on as it is.  Packing changes what the
  upload stage sees, so it bumps \<open>batchDirty\<close> (section 3).\<close>

definition packAttributes :: "geometry \<Rightarrow> geometry" where
  "packAttributes g =
     g\<lparr>packed := map (\<lambda>i. \<lparr>pv_position = points g ! i,
                             pv_uv = nthOpt (uvs g) i,
                             pv_color = nthOpt (colors g) i,
                             pv_textureId = nthOpt (textureIds g) i\<rparr>)
                    [0 ..< length (points g)],
       batchDirty := batchDirty g + 1\<rparr>"

text \<open>Modelled from the spec: steps 4 to 6 of the rebuild (section 4.1).  The open part is
  closed; with no batch part the geometry is marked batchable and the rebuild stops; else
  the index buffer is chosen, the geometry is classified, and it is packed directly if
  batchable and after compiling the draw calls if not.\<close>

definition finishBuild :: "capability \<Rightarrow> settings \<Rightarrow> buildState \<Rightarrow> world \<times> geometry" where
  "finishBuild cap cfg s =
     (let g1 = closeOpen s
      in if batches g1 = [] then (bs_world s, g1\<lparr>batchable := True\<rparr>)
         else
           (let g2 = chooseIndexBuffer g1;
                g3 = g2\<lparr>batchable := isBatchable cfg g2\<rparr>
            in if batchable g3 then (bs_world s, packAttributes g3)
               else (let r = buildDrawCalls cap cfg (bs_world s, g3)
                     in (fst r, packAttributes (snd r)))))"

text \<open>Modelled from the spec: the rebuild entry point (section 4.1).  Without shapes the
  geometry is marked batchable.  With the cache stamp equal to the dirty counter nothing
  happens.  Otherwise the stamp is set, the builder runs from the resume cursor, and
  steps 4 to 6 follow.\<close>

definition updateBatches :: "capability \<Rightarrow> settings \<Rightarrow> world \<times> geometry \<Rightarrow> world \<times> geometry" where
  "updateBatches cap cfg wg =
     (let w = fst wg; g = snd wg
      in if shapes g = [] then (w, g\<lparr>batchable := True\<rparr>)
         else if dirty g = cacheDirty g then (w, g)
         else finishBuild cap cfg (buildLoop cap (resumeBuild w (g\<lparr>cacheDirty := dirty g\<rparr>))))"

text \<open>Modelled from the spec: adding a shape (section 3: \<open>dirty\<close> is bumped on any shape
  add).\<close>

definition drawShape ::
  "shape \<Rightarrow> style option \<Rightarrow> style option \<Rightarrow> matrix option \<Rightarrow> geometry \<Rightarrow> geometry" where
  "drawShape sh fill line m g =
     g\<lparr>shapes := shapes g @ [ShapeRecord sh fill line m [] []], dirty := dirty g + 1\<rparr>"

text \<open>Modelled from the spec: adding a hole (sections 3 and 7).  Before any shape exists
  the result is null and nothing changes.  Otherwise the hole joins the holes of the last
  shape, with that shape's line style and no fill of its own.\<close>

definition drawHole :: "shape \<Rightarrow> matrix option \<Rightarrow> geometry \<Rightarrow> unit option \<times> geometry" where
  "drawHole sh m g =
     (if shapes g = [] then (None, g)
      else
        (let parent = last (shapes g);
             hole = ShapeRecord sh None (lineStyle parent) m [] [];
             parent1 = ShapeRecord (recShape parent) (fillStyle parent) (lineStyle parent)
                         (transform parent) (holes parent @ [hole]) (localPoints parent)
         in (Some (), g\<lparr>shapes := butlast (shapes g) @ [parent1], dirty := dirty g + 1\<rparr>)))"

text \<open>Modelled from the spec: \<open>clear\<close> (sections 3 and 8): with prior shapes, the shape
  list and the vertex and index arrays are emptied, the batch parts and draw calls go
  back to their pools, the resume cursor returns to the start and \<open>dirty\<close> and
  \<open>batchDirty\<close> are bumped.\<close>

definition clear :: "world \<times> geometry \<Rightarrow> world \<times> geometry" where
  "clear wg =
     (let w = fst wg; g = snd wg
      in if shapes g = [] then (w, g)
         else (w\<lparr>batchPool := batchPool w + length (batches g),
                 drawCallPool := drawCallPool w + length (drawCalls g)\<rparr>,
               g\<lparr>shapes := [], dirty := dirty g + 1, batchDirty := batchDirty g + 1,
                 shapeIndex := 0, points := [], indices := [], uvs := [], colors := [],
                 textureIds := [], batches := [], drawCalls := []\<rparr>))"

text \<open>Modelled from the spec: a geometry and a world before anything was drawn.  The cache
  stamp starts below the dirty counter.\<close>

definition newGeometry :: geometry where
  "newGeometry =
     \<lparr>shapes = [], dirty = 0, cacheDirty = - 1, batchDirty = 0, shapeIndex = 0,
      points = [], indices = [], uvs = [], colors = [], textureIds = [], batches = [],
      drawCalls = [], batchable = False, indexBuf = None, packed = []\<rparr>"


section \<open>Graphics geometry: consistency of a geometry\<close>

text \<open>
  The states the operations of the geometry produce, starting from a new geometry, are
  consistent in the following sense: positions exist only inside batch parts, batch parts
  only with shapes, the cache stamp never runs ahead of the dirty counter, and while the
  stamp is valid the batchable flag is the classifier's verdict.  This predicate is a
  device of the proofs, not part of the program.
\<close>

definition geomInv :: "settings \<Rightarrow> geometry \<Rightarrow> bool" where
  "geomInv cfg g =
     ((batches g = [] \<longrightarrow> points g = [])
      \<and> (shapes g = [] \<longrightarrow> batches g = [])
      \<and> cacheDirty g \<le> dirty g
      \<and> (dirty g = cacheDirty g \<longrightarrow> batchable g = isBatchable cfg g))"

text \<open>
  The marks of the world are sound when none carries a tick of the future.  Every
  compilation keeps them so.  This predicate, too, is a device of the proofs.
\<close>

definition worldOk :: "world \<Rightarrow> bool" where
  "worldOk w = (\<forall>t k slot. marks w t = Some (k, slot) \<longrightarrow> k \<le> globalTick w)"

text \<open>
  During a rebuild a part is open as soon as there are positions or closed parts.  Again a
  device of the proofs.
\<close>

definition openInv :: "buildState \<Rightarrow> bool" where
  "openInv s = (bs_open s = None \<longrightarrow> points (bs_geom s) = [] \<and> batches (bs_geom s) = [])"




text \<open>
  Batch parts tile the attribute range when each starts where the one before it ended.
  \<open>partsEnd\<close> is where a list of parts ends.  A geometry is tiled when its batch parts
  tile the positions from 0 to the vertex count; during a rebuild the closed parts tile up
  to the start of the open part.  A geometry is unbuilt when nothing was tessellated for it
  yet and a rebuild is due.  Devices of the proofs.
\<close>

fun tiles :: "nat \<Rightarrow> batchPart list \<Rightarrow> bool" where
  "tiles a [] = True"
| "tiles a (p # ps) = (attribStart p = a \<and> tiles (a + attribSize p) ps)"

fun partsEnd :: "nat \<Rightarrow> batchPart list \<Rightarrow> nat" where
  "partsEnd a [] = a"
| "partsEnd a (p # ps) = partsEnd (a + attribSize p) ps"

definition tiled :: "geometry \<Rightarrow> bool" where
  "tiled g = (tiles 0 (batches g) \<and> partsEnd 0 (batches g) = length (points g))"

definition tileInv :: "buildState \<Rightarrow> bool" where
  "tileInv s =
     (tiles 0 (batches (bs_geom s))
      \<and> (bs_open s = None
            \<longrightarrow> partsEnd 0 (batches (bs_geom s)) = length (points (bs_geom s)))
      \<and> (\<forall>p. bs_open s = Some p
            \<longrightarrow> op_attribStart p = partsEnd 0 (batches (bs_geom s))
                \<and> op_attribStart p \<le> length (points (bs_geom s))))"

definition unbuilt :: "geometry \<Rightarrow> bool" where
  "unbuilt g =
     (points g = [] \<and> indices g = [] \<and> uvs g = [] \<and> colors g = [] \<and> textureIds g = []
      \<and> batches g = [] \<and> shapeIndex g = 0 \<and> cacheDirty g < dirty g)"

text \<open>
  Two compilations simulate each other when their states agree on everything but the
  world, their worlds have sound marks and count the same textures as bound, and the
  per-vertex arrays agree on the positions written so far.  A device of the proofs.
\<close>

definition arrRel :: "nat \<Rightarrow> nat list \<Rightarrow> nat list \<Rightarrow> bool" where
  "arrRel a xs ys = (take a xs = take a ys \<and> a \<le> length xs \<and> a \<le> length ys)"

definition compileSim :: "nat \<Rightarrow> compileState \<Rightarrow> compileState \<Rightarrow> bool" where
  "compileSim a s s' =
     (cs_current s = cs_current s' \<and> cs_type s = cs_type s' \<and> cs_count s = cs_count s'
      \<and> cs_cursor s = cs_cursor s' \<and> cs_closed s = cs_closed s'
      \<and> worldOk (cs_world s) \<and> worldOk (cs_world s')
      \<and> (\<forall>t. boundSlot (cs_world s) t = boundSlot (cs_world s') t)
      \<and> arrRel a (cs_colors s) (cs_colors s')
      \<and> arrRel a (cs_textureIds s) (cs_textureIds s'))"

text \<open>
  The builder's loop reads and writes the positions, indices, UVs, batch parts, the open
  part, the shape list, the cursor, and the log, wrap modes and batch pool of the world.
  \<open>reframe\<close> replaces everything else in a rebuild state by the values of a donor world and
  geometry, and appends further shape records behind the shape list; the loop commutes with
  it.  A device of the proofs.
\<close>

definition reframeW :: "world \<Rightarrow> world \<Rightarrow> world" where
  "reframeW w' w = w\<lparr>globalTick := globalTick w', marks := marks w',
                     drawCallPool := drawCallPool w'\<rparr>"

definition reframeG :: "geometry \<Rightarrow> shapeRecord list \<Rightarrow> geometry \<Rightarrow> geometry" where
  "reframeG g' extra g =
     g\<lparr>shapes := shapes g @ extra, dirty := dirty g', cacheDirty := cacheDirty g',
       batchDirty := batchDirty g', drawCalls := drawCalls g', colors := colors g',
       textureIds := textureIds g', batchable := batchable g', indexBuf := indexBuf g',
       packed := packed g'\<rparr>"

definition reframe :: "world \<Rightarrow> geometry \<Rightarrow> shapeRecord list \<Rightarrow> buildState \<Rightarrow> buildState" where
  "reframe w' g' extra s =
     s\<lparr>bs_world := reframeW w' (bs_world s), bs_geom := reframeG g' extra (bs_geom s)\<rparr>"

text \<open>
  The state of a rebuild over a geometry that had nothing tessellated when it began: the
  loop is through, parts are open and tiled as they should be, and the two per-vertex
  arrays of the compiler are still empty.  A world and a geometry follow such a state when
  they hold what the state would hand on, whatever their draw calls, marks and counters
  are: the arrays of the builder, the log, the packed buffers of the finished rebuild, and
  per-vertex arrays of the compiler that are empty where the compiler would not run and
  never longer than the positions.  Devices of the proofs.
\<close>

definition scratchOk :: "buildState \<Rightarrow> bool" where
  "scratchOk s =
     (openInv s \<and> tileInv s
      \<and> shapeIndex (bs_geom s) = length (shapes (bs_geom s))
      \<and> colors (bs_geom s) = [] \<and> textureIds (bs_geom s) = []
      \<and> worldOk (bs_world s))"

definition follows :: "capability \<Rightarrow> settings \<Rightarrow> buildState \<Rightarrow> world \<times> geometry \<Rightarrow> bool" where
  "follows cap cfg s wg =
     (shapes (snd wg) = shapes (closeOpen s)
      \<and> shapeIndex (snd wg) = shapeIndex (closeOpen s)
      \<and> points (snd wg) = points (closeOpen s)
      \<and> indices (snd wg) = indices (closeOpen s)
      \<and> uvs (snd wg) = uvs (closeOpen s)
      \<and> batches (snd wg) = batches (closeOpen s)
      \<and> tessLog (fst wg) = tessLog (bs_world s)
      \<and> repeatWrap (fst wg) = repeatWrap (bs_world s)
      \<and> batchPool (fst wg) = batchPool (bs_world s)
      \<and> worldOk (fst wg)
      \<and> cacheDirty (snd wg) \<le> dirty (snd wg)
      \<and> packed (snd wg) = packed (snd (finishBuild cap cfg s))
      \<and> indexBuf (snd wg) = indexBuf (snd (finishBuild cap cfg s))
      \<and> (isBatchable cfg (closeOpen s) \<longrightarrow> colors (snd wg) = [] \<and> textureIds (snd wg) = [])
      \<and> length (colors (snd wg)) \<le> length (points (closeOpen s))
      \<and> length (textureIds (snd wg)) \<le> length (points (closeOpen s)))"

section \<open>Graphics geometry: building shape by shape and building at once\<close>

text \<open>
  The two ways to a built geometry that the incrementality property compares (spec
  section 8).  Both start from a world and a geometry and a list of shapes to draw, each
  with its fill, line and transform.  The incremental way rebuilds the geometry as it is
  and then, for each shape in turn, draws the shape and rebuilds.  The other way draws all
  the shapes and rebuilds once.
\<close>

type_synonym drawArgs = "shape \<times> style option \<times> style option \<times> matrix option"

definition drawOne :: "drawArgs \<Rightarrow> geometry \<Rightarrow> geometry" where
  "drawOne a g = (case a of (sh, fill, line, m) \<Rightarrow> drawShape sh fill line m g)"

definition drawAll :: "drawArgs list \<Rightarrow> geometry \<Rightarrow> geometry" where
  "drawAll as g = foldl (\<lambda>h a. drawOne a h) g as"

definition drawAndRebuild ::
  "capability \<Rightarrow> settings \<Rightarrow> world \<times> geometry \<Rightarrow> drawArgs \<Rightarrow> world \<times> geometry" where
  "drawAndRebuild cap cfg wg a = updateBatches cap cfg (fst wg, drawOne a (snd wg))"

definition incrementalBuild ::
  "capability \<Rightarrow> settings \<Rightarrow> world \<times> geometry \<Rightarrow> drawArgs list \<Rightarrow> world \<times> geometry" where
  "incrementalBuild cap cfg wg as = foldl (drawAndRebuild cap cfg) (updateBatches cap cfg wg) as"

definition scratchBuild ::
  "capability \<Rightarrow> settings \<Rightarrow> world \<times> geometry \<Rightarrow> drawArgs list \<Rightarrow> world \<times> geometry" where
  "scratchBuild cap cfg wg as = updateBatches cap cfg (fst wg, drawAll as (snd wg))"

section \<open>Sample values\<close>

text \<open>
  Concrete values at which the model is evaluated below.  The sample externals are
  stand-ins of the simplest kind: a parser that reports no protocol and the whole url as
  the path, a constructor that fills in the name and the url, a \<^verbatim>\<open>url.resolve\<close> that returns
  its second argument and a \<^verbatim>\<open>url.format(url.parse(_))\<close> that returns its argument.
\<close>

definition sampleParseUri :: "string \<Rightarrow> parsedUri" where
  "sampleParseUri u = \<lparr>protocol = [], path = u\<rparr>"

definition sampleResource :: "string \<Rightarrow> string \<Rightarrow> addOptions option \<Rightarrow> resource" where
  "sampleResource n u options =
     \<lparr>r_name = n, r_url = u, r_type = TYPE_UNKNOWN, r_data = JUndefined,
      r_crossOrigin = JUndefined, r_metadata = JObj [], r_isDataUrl = False,
      r_isComplete = False, r_children = [], r_progressChunk = 0,
      r_onAfterMiddleware = []\<rparr>"

definition sampleResolve :: "string \<Rightarrow> string \<Rightarrow> string" where
  "sampleResolve from to = to"

definition sampleFormat :: "string \<Rightarrow> string" where
  "sampleFormat u = u"

definition sampleExternals :: externals where
  "sampleExternals =
     \<lparr>parseUri = sampleParseUri, newLoaderResource = sampleResource,
      url_resolve = sampleResolve, url_format_parse = sampleFormat\<rparr>"

text \<open>A loaded atlas: JSON data with frames, a second pack and an image.\<close>

definition atlasResource :: resource where
  "atlasResource =
     \<lparr>r_name = ''atlas'', r_url = ''atlas.json'', r_type = TYPE_JSON,
      r_data = JObj [(''frames'', JObj []),
                     (''meta'', JObj [(''image'', JStr ''atlas.png''),
                                      (''related_multi_packs'', JArr [JStr ''atlas2.json''])])],
      r_crossOrigin = JUndefined, r_metadata = JObj [], r_isDataUrl = False,
      r_isComplete = False, r_children = [], r_progressChunk = 100,
      r_onAfterMiddleware = []\<rparr>"

fun sampleHeap :: "ref \<Rightarrow> resource" where
  "sampleHeap 0 = atlasResource"
| "sampleHeap (Suc n) = sampleResource [] [] None"

text \<open>A loader that is running, and one that is not, each with the atlas registered.\<close>

definition runningLoader :: loader where
  "runningLoader =
     \<lparr>baseUrl = [], defaultQueryString = [], loading = True,
      resources = [(''atlas'', 0)], queue = [], heap = sampleHeap, nextRef = 1\<rparr>"

definition idleLoader :: loader where
  "idleLoader =
     \<lparr>baseUrl = [], defaultQueryString = [], loading = False,
      resources = [(''atlas'', 0)], queue = [], heap = sampleHeap, nextRef = 1\<rparr>"







text \<open>A full-frame texture on base texture \<open>n\<close>, an opaque blue fill with it, and the
  same style as a native line.\<close>

definition sampleTexture :: "nat \<Rightarrow> texture" where
  "sampleTexture n =
     \<lparr>baseTexture = n, baseWidth = 1, baseHeight = 1, frameWidth = 1, frameHeight = 1,
      frameOffsetU = 0, frameOffsetV = 0\<rparr>"

definition sampleFill :: "nat \<Rightarrow> style" where
  "sampleFill n =
     \<lparr>visible = True, color = 255, alpha = 1, styleTexture = sampleTexture n,
      uvMatrix = None, native = False\<rparr>"

definition sampleNativeLine :: "nat \<Rightarrow> style" where
  "sampleNativeLine n = (sampleFill n)\<lparr>native := True\<rparr>"






section \<open>Properties of the url preparation\<close>

subsection \<open>The string primitives\<close>















section \<open>Properties of adding a resource\<close>

lemma adjustChunks_fields:
  "resources (adjustChunks this parent new) = resources this"
  "queue (adjustChunks this parent new) = queue this"
  "loading (adjustChunks this parent new) = loading this"
  "nextRef (adjustChunks this parent new) = nextRef this"
  "baseUrl (adjustChunks this parent new) = baseUrl this"
  "defaultQueryString (adjustChunks this parent new) = defaultQueryString this"
  by (simp_all add: adjustChunks_def Let_def)

lemma private_add_running:
  assumes "loading this" and "\<forall>opts. options = Some opts \<longrightarrow> o_parentResource opts = None"
  shows "private_add ext this name url options callback =
           (Some (Error ''Cannot add resources while the loader is running.''), this)"
  using assms by (cases options) (simp_all add: private_add_def)

lemma private_add_exists:
  assumes "\<not> (loading this \<and> (\<forall>opts. options = Some opts \<longrightarrow> o_parentResource opts = None))"
    and "resourcesHas this name"
  shows "private_add ext this name url options callback =
           (Some (Error (''Resource named '' @ [CHR 0x22] @ name @ [CHR 0x22] @ '' already exists.'')), this)"
  using assms by (cases options) (auto simp add: private_add_def)

lemma private_add_ok:
  assumes "\<not> (loading this \<and> (\<forall>opts. options = Some opts \<longrightarrow> o_parentResource opts = None))"
    and "\<not> resourcesHas this name"
  shows "fst (private_add ext this name url options callback) = None"
    and "resources (snd (private_add ext this name url options callback))
           = resources this @ [(name, nextRef this)]"
    and "queue (snd (private_add ext this name url options callback))
           = queue this @ [nextRef this]"
    and "baseUrl (snd (private_add ext this name url options callback)) = baseUrl this"
proof -
  have g: "\<not> (loading this \<and> (case options of None \<Rightarrow> True | Some opts \<Rightarrow> o_parentResource opts = None))"
    using assms(1) by (cases options) auto
  show "fst (private_add ext this name url options callback) = None"
    using g assms(2) by (simp add: private_add_def Let_def)
  show "resources (snd (private_add ext this name url options callback))
           = resources this @ [(name, nextRef this)]"
    using g assms(2)
    by (simp add: private_add_def Let_def adjustChunks_fields split: option.split)
  show "queue (snd (private_add ext this name url options callback))
           = queue this @ [nextRef this]"
    using g assms(2)
    by (simp add: private_add_def Let_def adjustChunks_fields split: option.split)
  show "baseUrl (snd (private_add ext this name url options callback)) = baseUrl this"
    using g assms(2)
    by (simp add: private_add_def Let_def adjustChunks_fields split: option.split)
qed

lemma private_add_cases:
  assumes "private_add ext this name url options callback = (e, this')"
  shows "(e \<noteq> None \<and> this' = this) \<or>
         (e = None \<and> \<not> resourcesHas this name
            \<and> resources this' = resources this @ [(name, nextRef this)]
            \<and> queue this' = queue this @ [nextRef this])"
proof (cases "loading this \<and> (\<forall>opts. options = Some opts \<longrightarrow> o_parentResource opts = None)")
  case True
  then show ?thesis using assms private_add_running [of this options ext name url callback] by auto
next
  case nr: False
  show ?thesis
  proof (cases "resourcesHas this name")
    case True
    then show ?thesis using assms private_add_exists [OF nr True, of ext url callback] by auto
  next
    case False
    from private_add_ok [OF nr False, of ext url callback] assms
    show ?thesis using False by simp
  qed
qed

lemma resourcesHas_own: "n \<in> fst ` set (resources this) \<Longrightarrow> resourcesHas this n"
  by (simp add: resourcesHas_def map_of_eq_None_iff)



text \<open>
  Claim C8, as amended.  While the loader is loading, \<^verbatim>\<open>_add\<close> without a
  \<^verbatim>\<open>parentResource\<close> option throws "Cannot add resources while the loader is running.",
  whether or not the name is registered, because that check comes first.  When that check
  passes (the loader is not loading, or a parent is given), \<^verbatim>\<open>_add\<close> with a name already
  present in \<^verbatim>\<open>resources\<close> throws "Resource named ... already exists.".  Whenever
  \<^verbatim>\<open>_add\<close> throws, the loader is as it was before the call: the resources, the queue and
  everything else.
\<close>

theorem private_add_errors:
  "(loading this \<and> (\<forall>opts. options = Some opts \<longrightarrow> o_parentResource opts = None) \<longrightarrow>
      private_add ext this name url options callback =
        (Some (Error ''Cannot add resources while the loader is running.''), this)) \<and>
   (\<not> (loading this \<and> (\<forall>opts. options = Some opts \<longrightarrow> o_parentResource opts = None)) \<and>
    name \<in> fst ` set (resources this) \<longrightarrow>
      private_add ext this name url options callback =
        (Some (Error (''Resource named '' @ [CHR 0x22] @ name @ [CHR 0x22] @ '' already exists.'')),
         this)) \<and>
   (\<forall>e. fst (private_add ext this name url options callback) = Some e \<longrightarrow>
      snd (private_add ext this name url options callback) = this)"
proof (intro conjI impI allI)
  assume "loading this \<and> (\<forall>opts. options = Some opts \<longrightarrow> o_parentResource opts = None)"
  then show "private_add ext this name url options callback =
        (Some (Error ''Cannot add resources while the loader is running.''), this)"
    by (simp add: private_add_running)
next
  assume a: "\<not> (loading this \<and> (\<forall>opts. options = Some opts \<longrightarrow> o_parentResource opts = None)) \<and>
    name \<in> fst ` set (resources this)"
  then have "resourcesHas this name" by (simp add: resourcesHas_own)
  with a show "private_add ext this name url options callback =
        (Some (Error (''Resource named '' @ [CHR 0x22] @ name @ [CHR 0x22] @ '' already exists.'')),
         this)"
    using private_add_exists by blast
next
  fix e
  assume e: "fst (private_add ext this name url options callback) = Some e"
  obtain e' this' where r: "private_add ext this name url options callback = (e', this')"
    by (cases "private_add ext this name url options callback")
  from private_add_cases [OF r] e r
  show "snd (private_add ext this name url options callback) = this"
    by auto
qed

text \<open>
  The amended claim at two inputs: a running loader asked to add without a parent, and an
  idle loader asked to add a name that is registered.
\<close>

theorem private_add_errors_witness:
  "private_add sampleExternals runningLoader ''other'' ''other.json'' None None =
     (Some (Error ''Cannot add resources while the loader is running.''), runningLoader) \<and>
   private_add sampleExternals idleLoader ''atlas'' ''atlas.json'' None None =
     (Some (Error (''Resource named '' @ [CHR 0x22] @ ''atlas'' @ [CHR 0x22] @ '' already exists.'')),
      idleLoader) \<and>
   snd (private_add sampleExternals idleLoader ''atlas'' ''atlas.json'' None None) = idleLoader"
proof -
  have 1: "loading runningLoader" by (simp add: runningLoader_def)
  have 2: "\<not> loading idleLoader" by (simp add: idleLoader_def)
  have 3: "''atlas'' \<in> fst ` set (resources idleLoader)" by (simp add: idleLoader_def)
  from 1 private_add_errors [of runningLoader None sampleExternals "''other''" "''other.json''" None]
  have a: "private_add sampleExternals runningLoader ''other'' ''other.json'' None None =
     (Some (Error ''Cannot add resources while the loader is running.''), runningLoader)"
    by simp
  from 2 3 private_add_errors [of idleLoader None sampleExternals "''atlas''" "''atlas.json''" None]
  have b: "private_add sampleExternals idleLoader ''atlas'' ''atlas.json'' None None =
     (Some (Error (''Resource named '' @ [CHR 0x22] @ ''atlas'' @ [CHR 0x22] @ '' already exists.'')),
      idleLoader)"
    by simp
  from a b show ?thesis by simp
qed

text \<open>
  Claim C8 as stated promises the message "Resource named ... already exists." for every
  call with a registered name.  On a running loader, without a parent, the call with the
  registered name \<^verbatim>\<open>atlas\<close> throws the other message.
\<close>

theorem private_add_exists_counterexample:
  "''atlas'' \<in> fst ` set (resources runningLoader) \<and>
   fst (private_add sampleExternals runningLoader ''atlas'' ''atlas.json'' None None)
     = Some (Error ''Cannot add resources while the loader is running.'') \<and>
   fst (private_add sampleExternals runningLoader ''atlas'' ''atlas.json'' None None)
     \<noteq> Some (Error (''Resource named '' @ [CHR 0x22] @ ''atlas'' @ [CHR 0x22] @ '' already exists.''))"
  by (simp add: private_add_def runningLoader_def)

section \<open>Properties of the spritesheet middleware\<close>

lemma Loader_add_NameUrl:
  "Loader_add ext this (AddNameUrl n u options cb) = private_add ext this n u options cb"
  by simp











section \<open>Properties of the rebuild\<close>

subsection \<open>What each step leaves alone\<close>

lemma processStyle_keeps:
  "shapes (bs_geom (processStyle cap i sr f s)) = shapes (bs_geom s)"
  "dirty (bs_geom (processStyle cap i sr f s)) = dirty (bs_geom s)"
  "cacheDirty (bs_geom (processStyle cap i sr f s)) = cacheDirty (bs_geom s)"
  "batchDirty (bs_geom (processStyle cap i sr f s)) = batchDirty (bs_geom s)"
  "shapeIndex (bs_geom (processStyle cap i sr f s)) = shapeIndex (bs_geom s)"
  "colors (bs_geom (processStyle cap i sr f s)) = colors (bs_geom s)"
  "textureIds (bs_geom (processStyle cap i sr f s)) = textureIds (bs_geom s)"
  "drawCalls (bs_geom (processStyle cap i sr f s)) = drawCalls (bs_geom s)"
  "batchable (bs_geom (processStyle cap i sr f s)) = batchable (bs_geom s)"
  "indexBuf (bs_geom (processStyle cap i sr f s)) = indexBuf (bs_geom s)"
  "packed (bs_geom (processStyle cap i sr f s)) = packed (bs_geom s)"
  by (simp_all add: processStyle_def Let_def split: option.split)

lemma processShape_keeps:
  "length (shapes (bs_geom (processShape cap s))) = length (shapes (bs_geom s))"
  "dirty (bs_geom (processShape cap s)) = dirty (bs_geom s)"
  "cacheDirty (bs_geom (processShape cap s)) = cacheDirty (bs_geom s)"
  "batchDirty (bs_geom (processShape cap s)) = batchDirty (bs_geom s)"
  "colors (bs_geom (processShape cap s)) = colors (bs_geom s)"
  "textureIds (bs_geom (processShape cap s)) = textureIds (bs_geom s)"
  "drawCalls (bs_geom (processShape cap s)) = drawCalls (bs_geom s)"
  "batchable (bs_geom (processShape cap s)) = batchable (bs_geom s)"
  "indexBuf (bs_geom (processShape cap s)) = indexBuf (bs_geom s)"
  "packed (bs_geom (processShape cap s)) = packed (bs_geom s)"
  by (simp_all add: processShape_def Let_def processStyle_keeps)

lemma processShape_index:
  "shapeIndex (bs_geom (processShape cap s)) =
     (if shapeIndex (bs_geom s) < length (shapes (bs_geom s))
      then Suc (shapeIndex (bs_geom s)) else shapeIndex (bs_geom s))"
  by (simp add: processShape_def Let_def processStyle_keeps)

lemma funpow_keeps:
  assumes "\<And>s. P (f s) = P s"
  shows "P ((f ^^ n) s) = P s"
  by (induction n) (simp_all add: assms)

lemma buildLoop_keeps:
  "length (shapes (bs_geom (buildLoop cap s))) = length (shapes (bs_geom s))"
  "dirty (bs_geom (buildLoop cap s)) = dirty (bs_geom s)"
  "cacheDirty (bs_geom (buildLoop cap s)) = cacheDirty (bs_geom s)"
  "batchDirty (bs_geom (buildLoop cap s)) = batchDirty (bs_geom s)"
  "colors (bs_geom (buildLoop cap s)) = colors (bs_geom s)"
  "textureIds (bs_geom (buildLoop cap s)) = textureIds (bs_geom s)"
  "drawCalls (bs_geom (buildLoop cap s)) = drawCalls (bs_geom s)"
  "batchable (bs_geom (buildLoop cap s)) = batchable (bs_geom s)"
  "indexBuf (bs_geom (buildLoop cap s)) = indexBuf (bs_geom s)"
  "packed (bs_geom (buildLoop cap s)) = packed (bs_geom s)"
  unfolding buildLoop_def
  by (rule funpow_keeps, simp add: processShape_keeps)+

lemma resumeBuild_keeps:
  "shapes (bs_geom (resumeBuild w g)) = shapes g"
  "dirty (bs_geom (resumeBuild w g)) = dirty g"
  "cacheDirty (bs_geom (resumeBuild w g)) = cacheDirty g"
  "batchDirty (bs_geom (resumeBuild w g)) = batchDirty g"
  "shapeIndex (bs_geom (resumeBuild w g)) = shapeIndex g"
  "points (bs_geom (resumeBuild w g)) = points g"
  "indices (bs_geom (resumeBuild w g)) = indices g"
  "uvs (bs_geom (resumeBuild w g)) = uvs g"
  "colors (bs_geom (resumeBuild w g)) = colors g"
  "textureIds (bs_geom (resumeBuild w g)) = textureIds g"
  "drawCalls (bs_geom (resumeBuild w g)) = drawCalls g"
  "batchable (bs_geom (resumeBuild w g)) = batchable g"
  "indexBuf (bs_geom (resumeBuild w g)) = indexBuf g"
  "packed (bs_geom (resumeBuild w g)) = packed g"
  "bs_world (resumeBuild w g) = w"
  by (simp_all add: resumeBuild_def split: list.split)

lemma closeOpen_keeps:
  "shapes (closeOpen s) = shapes (bs_geom s)"
  "dirty (closeOpen s) = dirty (bs_geom s)"
  "cacheDirty (closeOpen s) = cacheDirty (bs_geom s)"
  "batchDirty (closeOpen s) = batchDirty (bs_geom s)"
  "shapeIndex (closeOpen s) = shapeIndex (bs_geom s)"
  "points (closeOpen s) = points (bs_geom s)"
  "indices (closeOpen s) = indices (bs_geom s)"
  "uvs (closeOpen s) = uvs (bs_geom s)"
  "colors (closeOpen s) = colors (bs_geom s)"
  "textureIds (closeOpen s) = textureIds (bs_geom s)"
  "drawCalls (closeOpen s) = drawCalls (bs_geom s)"
  "batchable (closeOpen s) = batchable (bs_geom s)"
  "indexBuf (closeOpen s) = indexBuf (bs_geom s)"
  "packed (closeOpen s) = packed (bs_geom s)"
  by (simp_all add: closeOpen_def split: option.split)

lemma chooseIndexBuffer_keeps:
  "shapes (chooseIndexBuffer g) = shapes g"
  "dirty (chooseIndexBuffer g) = dirty g"
  "cacheDirty (chooseIndexBuffer g) = cacheDirty g"
  "batchDirty (chooseIndexBuffer g) = batchDirty g"
  "shapeIndex (chooseIndexBuffer g) = shapeIndex g"
  "points (chooseIndexBuffer g) = points g"
  "indices (chooseIndexBuffer g) = indices g"
  "uvs (chooseIndexBuffer g) = uvs g"
  "colors (chooseIndexBuffer g) = colors g"
  "textureIds (chooseIndexBuffer g) = textureIds g"
  "batches (chooseIndexBuffer g) = batches g"
  "drawCalls (chooseIndexBuffer g) = drawCalls g"
  "batchable (chooseIndexBuffer g) = batchable g"
  "packed (chooseIndexBuffer g) = packed g"
  by (simp_all add: chooseIndexBuffer_def Let_def split: option.split)


lemma packAttributes_keeps:
  "shapes (packAttributes g) = shapes g"
  "dirty (packAttributes g) = dirty g"
  "cacheDirty (packAttributes g) = cacheDirty g"
  "shapeIndex (packAttributes g) = shapeIndex g"
  "points (packAttributes g) = points g"
  "indices (packAttributes g) = indices g"
  "uvs (packAttributes g) = uvs g"
  "colors (packAttributes g) = colors g"
  "textureIds (packAttributes g) = textureIds g"
  "batches (packAttributes g) = batches g"
  "drawCalls (packAttributes g) = drawCalls g"
  "batchable (packAttributes g) = batchable g"
  "indexBuf (packAttributes g) = indexBuf g"
  by (simp_all add: packAttributes_def)

lemma buildDrawCalls_keeps:
  "shapes (snd (buildDrawCalls cap cfg wg)) = shapes (snd wg)"
  "dirty (snd (buildDrawCalls cap cfg wg)) = dirty (snd wg)"
  "cacheDirty (snd (buildDrawCalls cap cfg wg)) = cacheDirty (snd wg)"
  "batchDirty (snd (buildDrawCalls cap cfg wg)) = batchDirty (snd wg)"
  "shapeIndex (snd (buildDrawCalls cap cfg wg)) = shapeIndex (snd wg)"
  "points (snd (buildDrawCalls cap cfg wg)) = points (snd wg)"
  "indices (snd (buildDrawCalls cap cfg wg)) = indices (snd wg)"
  "uvs (snd (buildDrawCalls cap cfg wg)) = uvs (snd wg)"
  "batches (snd (buildDrawCalls cap cfg wg)) = batches (snd wg)"
  "batchable (snd (buildDrawCalls cap cfg wg)) = batchable (snd wg)"
  "indexBuf (snd (buildDrawCalls cap cfg wg)) = indexBuf (snd wg)"
  "packed (snd (buildDrawCalls cap cfg wg)) = packed (snd wg)"
  by (simp_all add: buildDrawCalls_def Let_def)

text \<open>The result of a rebuild that runs, named step by step.\<close>

lemma updateBatches_rebuild:
  assumes "shapes g \<noteq> []" and "dirty g \<noteq> cacheDirty g"
    and "s = buildLoop cap (resumeBuild w (g\<lparr>cacheDirty := dirty g\<rparr>))"
    and "g1 = closeOpen s"
    and "g3 = (chooseIndexBuffer g1)\<lparr>batchable := isBatchable cfg (chooseIndexBuffer g1)\<rparr>"
  shows "updateBatches cap cfg (w, g) =
           (if batches g1 = [] then (bs_world s, g1\<lparr>batchable := True\<rparr>)
            else if isBatchable cfg (chooseIndexBuffer g1) then (bs_world s, packAttributes g3)
            else (fst (buildDrawCalls cap cfg (bs_world s, g3)),
                  packAttributes (snd (buildDrawCalls cap cfg (bs_world s, g3)))))"
  using assms by (simp add: updateBatches_def finishBuild_def Let_def)



subsection \<open>One style of one shape\<close>

lemma processStyle_skip:
  assumes "(if f then fillStyle sr else lineStyle sr) = Some st" and "visible st"
    and "fst (if f then processFill cap sr (points (bs_geom s)) (indices (bs_geom s))
              else processLine cap sr (points (bs_geom s)) (indices (bs_geom s))) = []"
  shows "bs_open (processStyle cap i sr f s) = bs_open s"
    and "batches (bs_geom (processStyle cap i sr f s)) = batches (bs_geom s)"
    and "points (bs_geom (processStyle cap i sr f s)) = points (bs_geom s)"
    and "uvs (bs_geom (processStyle cap i sr f s)) = uvs (bs_geom s)"
    and "batchPool (bs_world (processStyle cap i sr f s)) = batchPool (bs_world s)"
  using assms by (auto simp add: processStyle_def Let_def)

lemma processStyle_appended:
  assumes "(if f then fillStyle sr else lineStyle sr) = Some st" and "visible st"
    and "new = (if f then processFill cap sr (points (bs_geom s)) (indices (bs_geom s))
              else processLine cap sr (points (bs_geom s)) (indices (bs_geom s)))"
    and "fst new \<noteq> []"
  shows "bs_open s = None \<Longrightarrow>
           bs_open (processStyle cap i sr f s)
             = Some (beginPart st (length (indices (bs_geom s))) (length (points (bs_geom s))))
           \<and> batches (bs_geom (processStyle cap i sr f s)) = batches (bs_geom s)"
    and "bs_open s = Some p \<Longrightarrow> mergeable (Some (op_style p)) (Some st) \<Longrightarrow>
           bs_open (processStyle cap i sr f s) = Some p
           \<and> batches (bs_geom (processStyle cap i sr f s)) = batches (bs_geom s)"
    and "bs_open s = Some p \<Longrightarrow> \<not> mergeable (Some (op_style p)) (Some st) \<Longrightarrow>
           bs_open (processStyle cap i sr f s)
             = Some (beginPart st (length (indices (bs_geom s))) (length (points (bs_geom s))))
           \<and> batches (bs_geom (processStyle cap i sr f s))
             = batches (bs_geom s)
                 @ [endPart p (length (indices (bs_geom s))) (length (points (bs_geom s)))]"
    and "points (bs_geom (processStyle cap i sr f s)) = points (bs_geom s) @ fst new"
    and "indices (bs_geom (processStyle cap i sr f s)) = indices (bs_geom s) @ snd new"
    and "uvs (bs_geom (processStyle cap i sr f s))
           = uvs (bs_geom s) @ addUvs (styleTexture st) (uvMatrix st) (fst new)"
  using assms by (auto simp add: processStyle_def Let_def)

lemma processStyle_absent:
  "(if f then fillStyle sr else lineStyle sr) = None \<Longrightarrow> processStyle cap i sr f s = s"
  "(if f then fillStyle sr else lineStyle sr) = Some st \<Longrightarrow> \<not> visible st
     \<Longrightarrow> processStyle cap i sr f s = s"
  by (simp_all add: processStyle_def)

subsection \<open>The open part\<close>

lemma processStyle_openInv: "openInv s \<Longrightarrow> openInv (processStyle cap i sr f s)"
proof (cases "if f then fillStyle sr else lineStyle sr")
  case None
  assume "openInv s"
  then show ?thesis using processStyle_absent(1) [OF None] by simp
next
  case (Some st)
  assume inv: "openInv s"
  show ?thesis
  proof (cases "visible st")
    case False
    then show ?thesis using processStyle_absent(2) [OF Some] inv by simp
  next
    case True
    define new where "new = (if f then processFill cap sr (points (bs_geom s)) (indices (bs_geom s))
              else processLine cap sr (points (bs_geom s)) (indices (bs_geom s)))"
    show ?thesis
    proof (cases "fst new = []")
      case e: True
      then show ?thesis
        using processStyle_skip [OF Some True, of cap s i] inv
        by (simp add: openInv_def new_def)
    next
      case ne: False
      show ?thesis
      proof (cases "bs_open s")
        case None
        with processStyle_appended(1) [OF Some True new_def ne] show ?thesis
          by (simp add: openInv_def)
      next
        case p: (Some p)
        show ?thesis
          using processStyle_appended(2,3) [OF Some True new_def ne p]
          by (cases "mergeable (Some (op_style p)) (Some st)") (simp_all add: openInv_def)
      qed
    qed
  qed
qed

lemma processShape_openInv: "openInv s \<Longrightarrow> openInv (processShape cap s)"
proof -
  assume inv: "openInv s"
  have "\<And>w g. openInv (s\<lparr>bs_world := w, bs_geom := (bs_geom s)\<lparr>shapes := g, shapeIndex := Suc (shapeIndex (bs_geom s))\<rparr>\<rparr>)"
    using inv by (simp add: openInv_def)
  then show ?thesis
    using inv by (simp add: processShape_def Let_def processStyle_openInv)
qed

lemma buildLoop_openInv: "openInv s \<Longrightarrow> openInv (buildLoop cap s)"
proof -
  assume inv: "openInv s"
  have "openInv ((processShape cap ^^ n) s)" for n
    by (induction n) (simp_all add: inv processShape_openInv)
  then show ?thesis by (simp add: buildLoop_def)
qed

lemma resumeBuild_openInv:
  "(batches g = [] \<longrightarrow> points g = []) \<Longrightarrow> openInv (resumeBuild w g)"
  by (simp add: openInv_def resumeBuild_def split: list.split)

lemma closeOpen_batches_empty:
  "openInv s \<Longrightarrow> batches (closeOpen s) = [] \<Longrightarrow> points (closeOpen s) = []"
  by (cases "bs_open s") (simp_all add: closeOpen_def openInv_def)

subsection \<open>The classifier's verdict\<close>

lemma isBatchable_iff:
  "isBatchable cfg g \<longleftrightarrow>
     length (points g) \<le> batchableSize cfg
     \<and> (\<forall>p \<in> set (batches g). \<not> native (bp_style p))
     \<and> length (points g) \<le> 65535"
  by (auto simp add: isBatchable_def list_ex_iff)

lemma isBatchable_cong:
  "points g' = points g \<Longrightarrow> batches g' = batches g \<Longrightarrow> isBatchable cfg g' = isBatchable cfg g"
  by (simp add: isBatchable_def)

lemma updateBatches_classified:
  assumes "geomInv cfg g"
  shows "batchable (snd (updateBatches cap cfg (w, g)))
           = isBatchable cfg (snd (updateBatches cap cfg (w, g)))"
proof (cases "shapes g = []")
  case True
  with assms have "batches g = []" "points g = []" by (simp_all add: geomInv_def)
  then show ?thesis using True by (simp add: updateBatches_def isBatchable_def)
next
  case ne: False
  show ?thesis
  proof (cases "dirty g = cacheDirty g")
    case True
    then show ?thesis using ne assms by (simp add: updateBatches_def geomInv_def)
  next
    case False
    define s where "s = buildLoop cap (resumeBuild w (g\<lparr>cacheDirty := dirty g\<rparr>))"
    define g1 where "g1 = closeOpen s"
    define g3 where "g3 = (chooseIndexBuffer g1)\<lparr>batchable := isBatchable cfg (chooseIndexBuffer g1)\<rparr>"
    note u = updateBatches_rebuild [OF ne False s_def g1_def g3_def]
    have oi: "openInv s"
      unfolding s_def using assms
      by (intro buildLoop_openInv resumeBuild_openInv) (simp add: geomInv_def)
    show ?thesis
    proof (cases "batches g1 = []")
      case True
      with closeOpen_batches_empty [OF oi] have "points g1 = []" by (simp add: g1_def)
      then show ?thesis using True by (simp add: u isBatchable_def)
    next
      case nb: False
      have c: "isBatchable cfg (chooseIndexBuffer g1) = isBatchable cfg g1"
        by (rule isBatchable_cong) (simp_all add: chooseIndexBuffer_keeps)
      show ?thesis
      proof (cases "isBatchable cfg g1")
        case True
        have "isBatchable cfg (packAttributes g3) = isBatchable cfg g1"
          by (rule isBatchable_cong)
             (simp_all add: packAttributes_keeps g3_def chooseIndexBuffer_keeps)
        then show ?thesis using True nb by (simp add: u c packAttributes_keeps g3_def)
      next
        case nbt: False
        have "isBatchable cfg (packAttributes (snd (buildDrawCalls cap cfg (bs_world s, g3))))
                = isBatchable cfg g1"
          by (rule isBatchable_cong)
             (simp_all add: packAttributes_keeps buildDrawCalls_keeps g3_def chooseIndexBuffer_keeps)
        then show ?thesis
          using nbt nb
          by (simp add: u c packAttributes_keeps buildDrawCalls_keeps g3_def)
      qed
    qed
  qed
qed

subsection \<open>Consistency is kept by every operation\<close>

lemma geomInv_new: "geomInv cfg newGeometry"
  by (simp add: geomInv_def newGeometry_def)

lemma geomInv_drawShape: "geomInv cfg g \<Longrightarrow> geomInv cfg (drawShape sh fill line m g)"
  by (simp add: geomInv_def drawShape_def)

lemma geomInv_drawHole: "geomInv cfg g \<Longrightarrow> geomInv cfg (snd (drawHole sh m g))"
  by (simp add: geomInv_def drawHole_def Let_def)

lemma geomInv_clear: "geomInv cfg g \<Longrightarrow> geomInv cfg (snd (clear (w, g)))"
  by (simp add: geomInv_def clear_def Let_def)

lemma geomInv_updateBatches:
  assumes "geomInv cfg g"
  shows "geomInv cfg (snd (updateBatches cap cfg (w, g)))"
proof (cases "shapes g = []")
  case True
  with assms have "batches g = []" "points g = []" by (simp_all add: geomInv_def)
  then show ?thesis using True assms by (simp add: updateBatches_def isBatchable_def geomInv_def)
next
  case ne: False
  show ?thesis
  proof (cases "dirty g = cacheDirty g")
    case True
    then show ?thesis using ne assms by (simp add: updateBatches_def)
  next
    case False
    define s where "s = buildLoop cap (resumeBuild w (g\<lparr>cacheDirty := dirty g\<rparr>))"
    define g1 where "g1 = closeOpen s"
    define g3 where "g3 = (chooseIndexBuffer g1)\<lparr>batchable := isBatchable cfg (chooseIndexBuffer g1)\<rparr>"
    note u = updateBatches_rebuild [OF ne False s_def g1_def g3_def]
    have oi: "openInv s"
      unfolding s_def using assms
      by (intro buildLoop_openInv resumeBuild_openInv) (simp add: geomInv_def)
    have pts: "batches g1 = [] \<Longrightarrow> points g1 = []"
      using closeOpen_batches_empty [OF oi] by (simp add: g1_def)
    have len: "length (shapes g1) = length (shapes g)"
      by (simp add: g1_def s_def closeOpen_keeps buildLoop_keeps resumeBuild_keeps)
    then have sh: "shapes g1 \<noteq> []" using ne by auto
    have st: "cacheDirty g1 = dirty g1"
      by (simp add: g1_def s_def closeOpen_keeps buildLoop_keeps resumeBuild_keeps)
    have cl: "batchable (snd (updateBatches cap cfg (w, g)))
           = isBatchable cfg (snd (updateBatches cap cfg (w, g)))"
      by (rule updateBatches_classified [OF assms])
    have f: "shapes (snd (updateBatches cap cfg (w, g))) = shapes g1
             \<and> points (snd (updateBatches cap cfg (w, g))) = points g1
             \<and> batches (snd (updateBatches cap cfg (w, g))) = batches g1
             \<and> dirty (snd (updateBatches cap cfg (w, g))) = dirty g1
             \<and> cacheDirty (snd (updateBatches cap cfg (w, g))) = cacheDirty g1"
      by (simp add: u g3_def packAttributes_keeps buildDrawCalls_keeps chooseIndexBuffer_keeps)
    show ?thesis
      unfolding geomInv_def using f pts sh st cl by simp
  qed
qed

subsection \<open>What a rebuild that runs hands on, and the one-square example\<close>

lemma updateBatches_rebuild_fields:
  assumes "shapes g \<noteq> []" and "dirty g \<noteq> cacheDirty g"
    and "s = buildLoop cap (resumeBuild w (g\<lparr>cacheDirty := dirty g\<rparr>))"
  shows "batches (snd (updateBatches cap cfg (w, g))) = batches (closeOpen s)"
    and "points (snd (updateBatches cap cfg (w, g))) = points (closeOpen s)"
    and "indices (snd (updateBatches cap cfg (w, g))) = indices (closeOpen s)"
    and "uvs (snd (updateBatches cap cfg (w, g))) = uvs (closeOpen s)"
    and "shapes (snd (updateBatches cap cfg (w, g))) = shapes (closeOpen s)"
    and "shapeIndex (snd (updateBatches cap cfg (w, g))) = shapeIndex (closeOpen s)"
  unfolding updateBatches_rebuild [OF assms refl refl]
  by (simp_all add: packAttributes_keeps buildDrawCalls_keeps chooseIndexBuffer_keeps)





section \<open>Properties of the draw-call compiler\<close>

subsection \<open>Marks, ticks and the texture budget\<close>

lemma worldOk_cong:
  "marks w' = marks w \<Longrightarrow> globalTick w' = globalTick w \<Longrightarrow> worldOk w' = worldOk w"
  by (simp add: worldOk_def)

lemma boundSlot_cong:
  "marks w' = marks w \<Longrightarrow> globalTick w' = globalTick w \<Longrightarrow> boundSlot w' t = boundSlot w t"
  by (simp add: boundSlot_def split: option.split prod.split)

lemma worldOk_later:
  "worldOk w \<Longrightarrow> marks w' = marks w \<Longrightarrow> globalTick w \<le> globalTick w' \<Longrightarrow> worldOk w'"
  by (fastforce simp add: worldOk_def)

lemma boundSlot_later:
  "worldOk w \<Longrightarrow> marks w' = marks w \<Longrightarrow> globalTick w < globalTick w'
     \<Longrightarrow> boundSlot w' t = None"
  by (fastforce simp add: worldOk_def boundSlot_def split: option.split)

lemma worldOk_mark:
  "worldOk w \<Longrightarrow> worldOk (w\<lparr>marks := (marks w)(tex \<mapsto> (globalTick w, c))\<rparr>)"
  by (simp add: worldOk_def)

lemma boundSlot_mark:
  "boundSlot (w\<lparr>marks := (marks w)(tex \<mapsto> (globalTick w, c))\<rparr>) t
     = (if t = tex then Some c else boundSlot w t)"
  by (simp add: boundSlot_def split: option.split)





lemma openFreshCall_world:
  assumes "worldOk (cs_world s)"
  shows "worldOk (cs_world (openFreshCall s))"
    and "boundSlot (cs_world (openFreshCall s)) t = None"
proof -
  show "worldOk (cs_world (openFreshCall s))"
    by (rule worldOk_later [OF assms]) (simp_all add: openFreshCall_def acquireDrawCall_def)
  show "boundSlot (cs_world (openFreshCall s)) t = None"
    by (rule boundSlot_later [OF assms]) (simp_all add: openFreshCall_def acquireDrawCall_def)
qed


lemma openFreshCall_count: "cs_count (openFreshCall s) = 0"
  by (simp add: openFreshCall_def)










lemma compileStart_world:
  assumes "worldOk w"
  shows "worldOk (cs_world (compileStart w g))"
    and "boundSlot (cs_world (compileStart w g)) t = None"
proof -
  show "worldOk (cs_world (compileStart w g))"
    by (rule worldOk_later [OF assms]) (simp_all add: compileStart_def Let_def acquireDrawCall_def)
  show "boundSlot (cs_world (compileStart w g)) t = None"
    by (rule boundSlot_later [OF assms]) (simp_all add: compileStart_def Let_def acquireDrawCall_def)
qed






subsection \<open>Batch parts tile the positions\<close>

lemma tiles_append: "tiles a (xs @ ys) = (tiles a xs \<and> tiles (partsEnd a xs) ys)"
  by (induction xs arbitrary: a) simp_all

lemma partsEnd_append: "partsEnd a (xs @ ys) = partsEnd (partsEnd a xs) ys"
  by (induction xs arbitrary: a) simp_all

lemma partsEnd_ge: "a \<le> partsEnd a ps"
proof (induction ps arbitrary: a)
  case Nil
  show ?case by simp
next
  case (Cons p ps)
  have "a \<le> a + attribSize p" by simp
  also have "\<dots> \<le> partsEnd (a + attribSize p) ps" by (rule Cons)
  finally show ?case by simp
qed

lemma endPart_attrib:
  "attribStart (endPart p i a) = op_attribStart p"
  "attribSize (endPart p i a) = a - op_attribStart p"
  "bp_style (endPart p i a) = op_style p"
  "indexStart (endPart p i a) = op_indexStart p"
  by (simp_all add: endPart_def)

lemma processStyle_tileInv: "tileInv s \<Longrightarrow> tileInv (processStyle cap i sr f s)"
proof (cases "if f then fillStyle sr else lineStyle sr")
  case None
  assume "tileInv s"
  then show ?thesis using processStyle_absent(1) [OF None] by simp
next
  case (Some st)
  assume inv: "tileInv s"
  show ?thesis
  proof (cases "visible st")
    case False
    then show ?thesis using processStyle_absent(2) [OF Some] inv by simp
  next
    case True
    define new where "new = (if f then processFill cap sr (points (bs_geom s)) (indices (bs_geom s))
              else processLine cap sr (points (bs_geom s)) (indices (bs_geom s)))"
    show ?thesis
    proof (cases "fst new = []")
      case e: True
      then show ?thesis
        using processStyle_skip [OF Some True, of cap s i] inv
        by (auto simp add: tileInv_def new_def)
    next
      case ne: False
      note ap = processStyle_appended [OF Some True new_def ne]
      show ?thesis
      proof (cases "bs_open s")
        case None
        with ap(1) ap(4) inv show ?thesis
          by (auto simp add: tileInv_def beginPart_def)
      next
        case p: (Some p)
        show ?thesis
        proof (cases "mergeable (Some (op_style p)) (Some st)")
          case True
          with ap(2) [OF p] ap(4) inv p show ?thesis
            by (auto simp add: tileInv_def)
        next
          case False
          with ap(3) [OF p] ap(4) inv p show ?thesis
            by (auto simp add: tileInv_def beginPart_def tiles_append partsEnd_append endPart_attrib)
        qed
      qed
    qed
  qed
qed

lemma tileInv_frame:
  "tileInv (s\<lparr>bs_world := w, bs_geom := (bs_geom s)\<lparr>shapes := xs, shapeIndex := k\<rparr>\<rparr>) = tileInv s"
  by (simp add: tileInv_def)

lemma processShape_tileInv: "tileInv s \<Longrightarrow> tileInv (processShape cap s)"
  by (simp add: processShape_def Let_def processStyle_tileInv tileInv_frame)

lemma buildLoop_tileInv: "tileInv s \<Longrightarrow> tileInv (buildLoop cap s)"
proof -
  assume inv: "tileInv s"
  have "tileInv ((processShape cap ^^ n) s)" for n
    by (induction n) (simp_all add: inv processShape_tileInv)
  then show ?thesis by (simp add: buildLoop_def)
qed

lemma resumeBuild_tileInv: "tiled g \<Longrightarrow> tileInv (resumeBuild w g)"
proof (cases "batches g" rule: rev_cases)
  case Nil
  assume "tiled g"
  then show ?thesis using Nil by (simp add: tiled_def tileInv_def resumeBuild_def)
next
  case (snoc ps p)
  assume t: "tiled g"
  then have 1: "tiles 0 ps" and 2: "attribStart p = partsEnd 0 ps"
    and 3: "partsEnd 0 ps + attribSize p = length (points g)"
    by (simp_all add: tiled_def snoc tiles_append partsEnd_append)
  have r: "resumeBuild w g =
           \<lparr>bs_world = w, bs_geom = g\<lparr>batches := ps\<rparr>,
            bs_open = Some (beginPart (bp_style p) (indexStart p) (attribStart p))\<rparr>"
    by (cases ps) (simp_all add: resumeBuild_def snoc)
  show ?thesis
    unfolding r using 1 2 3 by (auto simp add: tileInv_def beginPart_def)
qed

lemma closeOpen_tiled: "tileInv s \<Longrightarrow> tiled (closeOpen s)"
  by (cases "bs_open s")
     (auto simp add: tileInv_def tiled_def closeOpen_def tiles_append partsEnd_append endPart_attrib)

lemma tiled_cong: "batches g' = batches g \<Longrightarrow> points g' = points g \<Longrightarrow> tiled g' = tiled g"
  by (simp add: tiled_def)

lemma unbuilt_tiled: "unbuilt g \<Longrightarrow> tiled g"
  by (simp add: unbuilt_def tiled_def)

lemma updateBatches_tiled:
  assumes "tiled g"
  shows "tiled (snd (updateBatches cap cfg (w, g)))"
proof (cases "shapes g = [] \<or> dirty g = cacheDirty g")
  case True
  then show ?thesis using assms by (auto simp add: updateBatches_def tiled_def)
next
  case False
  then have ne: "shapes g \<noteq> []" and d: "dirty g \<noteq> cacheDirty g" by simp_all
  define s where "s = buildLoop cap (resumeBuild w (g\<lparr>cacheDirty := dirty g\<rparr>))"
  have "tiled (g\<lparr>cacheDirty := dirty g\<rparr>)" using assms by (simp add: tiled_def)
  then have "tiled (closeOpen s)"
    unfolding s_def by (intro closeOpen_tiled buildLoop_tileInv resumeBuild_tileInv)
  moreover have "tiled (snd (updateBatches cap cfg (w, g))) = tiled (closeOpen s)"
    by (rule tiled_cong) (simp_all add: updateBatches_rebuild_fields [OF ne d s_def])
  ultimately show ?thesis by simp
qed

subsection \<open>Two compilations of the same batch parts\<close>

lemma writeRange_eq:
  "a \<le> length xs \<Longrightarrow> writeRange xs a n v = take a xs @ replicate n v @ drop (a + n) xs"
  by (simp add: writeRange_def)

lemma writeRange_length: "length (writeRange xs a n v) = max (length xs) (a + n)"
  by (simp add: writeRange_def)

lemma writeRange_rel:
  assumes "arrRel a xs ys"
  shows "arrRel (a + n) (writeRange xs a n v) (writeRange ys a n v)"
proof -
  from assms have t: "take a xs = take a ys" and lx: "a \<le> length xs" and ly: "a \<le> length ys"
    by (simp_all add: arrRel_def)
  have "take (a + n) (writeRange xs a n v) = take a xs @ replicate n v"
    using lx by (simp add: writeRange_eq)
  moreover have "take (a + n) (writeRange ys a n v) = take a ys @ replicate n v"
    using ly by (simp add: writeRange_eq)
  ultimately have "take (a + n) (writeRange xs a n v) = take (a + n) (writeRange ys a n v)"
    using t by simp
  then show ?thesis
    by (simp add: arrRel_def writeRange_length)
qed

lemma changeType_sim:
  assumes "compileSim a s s'"
  shows "compileSim a (changeType cfg s st) (changeType cfg s' st)"
proof (cases "primitiveOf st \<noteq> cs_type s")
  case False
  then show ?thesis using assms by (simp add: changeType_def compileSim_def)
next
  case True
  from assms have ok: "worldOk (cs_world s)" "worldOk (cs_world s')"
    and ty: "cs_type s = cs_type s'"
    by (simp_all add: compileSim_def)
  have 1: "worldOk ((cs_world s)\<lparr>globalTick := globalTick (cs_world s) + 1\<rparr>)"
    by (rule worldOk_later [OF ok(1)]) simp_all
  have 2: "worldOk ((cs_world s')\<lparr>globalTick := globalTick (cs_world s') + 1\<rparr>)"
    by (rule worldOk_later [OF ok(2)]) simp_all
  have 3: "boundSlot ((cs_world s)\<lparr>globalTick := globalTick (cs_world s) + 1\<rparr>) t = None" for t
    by (rule boundSlot_later [OF ok(1)]) simp_all
  have 4: "boundSlot ((cs_world s')\<lparr>globalTick := globalTick (cs_world s') + 1\<rparr>) t = None" for t
    by (rule boundSlot_later [OF ok(2)]) simp_all
  show ?thesis
    using True ty assms 1 2 3 4 by (simp add: changeType_def compileSim_def)
qed

lemma openFreshCall_sim:
  assumes "compileSim a s s'"
  shows "compileSim a (openFreshCall s) (openFreshCall s')"
proof -
  from assms have ok: "worldOk (cs_world s)" "worldOk (cs_world s')"
    by (simp_all add: compileSim_def)
  note w = openFreshCall_world [OF ok(1)] openFreshCall_world [OF ok(2)]
  have f: "cs_closed (openFreshCall s) = cs_closed s @ [cs_current s]"
     "cs_current (openFreshCall s) = \<lparr>textureArray = [], dc_type = cs_type s,
                       dc_start = cs_cursor s, dc_size = 0\<rparr>"
     "cs_count (openFreshCall s) = 0" "cs_type (openFreshCall s) = cs_type s"
     "cs_cursor (openFreshCall s) = cs_cursor s" "cs_colors (openFreshCall s) = cs_colors s"
     "cs_textureIds (openFreshCall s) = cs_textureIds s" for s
    by (simp_all add: openFreshCall_def)
  show ?thesis
    unfolding compileSim_def using assms w by (simp add: f compileSim_def)
qed

lemma bindTexture_sim:
  assumes "compileSim a s s'"
  shows "compileSim a (bindTexture s tex) (bindTexture s' tex)"
proof -
  from assms have ok: "worldOk (cs_world s)" "worldOk (cs_world s')"
    and c: "cs_count s = cs_count s'"
    and b: "\<And>t. boundSlot (cs_world s) t = boundSlot (cs_world s') t"
    by (simp_all add: compileSim_def)
  show ?thesis
    using assms worldOk_mark [OF ok(1), of tex "cs_count s"] worldOk_mark [OF ok(2), of tex "cs_count s'"]
    by (simp add: compileSim_def bindTexture_def boundSlot_mark)
qed

lemma assignSlot_sim:
  assumes "compileSim a s s'"
  shows "compileSim a (fst (assignSlot cfg s tex)) (fst (assignSlot cfg s' tex))"
    and "snd (assignSlot cfg s tex) = snd (assignSlot cfg s' tex)"
proof -
  from assms have b: "boundSlot (cs_world s) tex = boundSlot (cs_world s') tex"
    and c: "cs_count s = cs_count s'"
    by (simp_all add: compileSim_def)
  have fresh: "cs_count (openFreshCall s) = cs_count (openFreshCall s')"
    by (simp add: openFreshCall_count)
  show "compileSim a (fst (assignSlot cfg s tex)) (fst (assignSlot cfg s' tex))"
  proof (cases "boundSlot (cs_world s) tex")
    case (Some slot)
    then show ?thesis using b assms by (simp add: assignSlot_def)
  next
    case None
    show ?thesis
    proof (cases "maxTextures cfg \<le> cs_count s")
      case True
      have "compileSim a (bindTexture (openFreshCall s) tex) (bindTexture (openFreshCall s') tex)"
        by (intro bindTexture_sim openFreshCall_sim assms)
      then show ?thesis using None b c True by (simp add: assignSlot_def Let_def)
    next
      case False
      have "compileSim a (bindTexture s tex) (bindTexture s' tex)"
        by (intro bindTexture_sim assms)
      then show ?thesis using None b c False by (simp add: assignSlot_def Let_def)
    qed
  qed
  show "snd (assignSlot cfg s tex) = snd (assignSlot cfg s' tex)"
  proof (cases "boundSlot (cs_world s) tex")
    case (Some slot)
    with b have "boundSlot (cs_world s') tex = Some slot" by simp
    with Some show ?thesis by (simp add: assignSlot_def)
  next
    case None
    with b have "boundSlot (cs_world s') tex = None" by simp
    with None show ?thesis using c fresh by (simp add: assignSlot_def Let_def)
  qed
qed

lemma accumulate_sim:
  assumes "compileSim a s s'" and "attribStart p = a"
  shows "compileSim (a + attribSize p) (accumulate cap s p slot) (accumulate cap s' p slot)"
  using assms writeRange_rel [of a "cs_colors s" "cs_colors s'"]
    writeRange_rel [of a "cs_textureIds s" "cs_textureIds s'"]
  by (simp add: compileSim_def accumulate_def)

lemma compileStep_sim:
  assumes "compileSim a s s'" and "attribStart p = a"
  shows "compileSim (a + attribSize p) (compileStep cap cfg s p) (compileStep cap cfg s' p)"
proof -
  note c = changeType_sim [OF assms(1), of cfg "bp_style p"]
  note as = assignSlot_sim [OF c, of cfg "baseTexture (styleTexture (bp_style p))"]
  show ?thesis
    unfolding compileStep_def Let_def as(2)
    by (rule accumulate_sim [OF as(1) assms(2)])
qed

lemma compileParts_sim:
  "compileSim a s s' \<Longrightarrow> tiles a ps \<Longrightarrow>
     compileSim (partsEnd a ps) (compileParts cap cfg s ps) (compileParts cap cfg s' ps)"
proof (induction ps arbitrary: a s s')
  case Nil
  then show ?case by (simp add: compileParts_def)
next
  case (Cons p ps)
  from Cons.prems have st: "attribStart p = a" and t: "tiles (a + attribSize p) ps" by simp_all
  have e: "compileParts cap cfg s (p # ps) = compileParts cap cfg (compileStep cap cfg s p) ps" for s
    by (simp add: compileParts_def)
  from Cons.IH [OF compileStep_sim [OF Cons.prems(1) st] t]
  show ?case by (simp add: e)
qed

lemma compileStep_lengths:
  "length (cs_colors (compileStep cap cfg s p))
     = max (length (cs_colors s)) (attribStart p + attribSize p)"
  "length (cs_textureIds (compileStep cap cfg s p))
     = max (length (cs_textureIds s)) (attribStart p + attribSize p)"
proof -
  have k: "cs_colors (fst (assignSlot cfg s1 tex)) = cs_colors s1
         \<and> cs_textureIds (fst (assignSlot cfg s1 tex)) = cs_textureIds s1" for s1 tex
    by (simp add: assignSlot_def Let_def bindTexture_def openFreshCall_def split: option.split)
  have c: "cs_colors (changeType cfg s st) = cs_colors s
         \<and> cs_textureIds (changeType cfg s st) = cs_textureIds s" for st
    by (simp add: changeType_def)
  show "length (cs_colors (compileStep cap cfg s p))
     = max (length (cs_colors s)) (attribStart p + attribSize p)"
    by (simp add: compileStep_def Let_def accumulate_def writeRange_length k c)
  show "length (cs_textureIds (compileStep cap cfg s p))
     = max (length (cs_textureIds s)) (attribStart p + attribSize p)"
    by (simp add: compileStep_def Let_def accumulate_def writeRange_length k c)
qed

lemma compileParts_lengths:
  "tiles a ps \<Longrightarrow> a \<le> length (cs_colors s) \<Longrightarrow> a \<le> length (cs_textureIds s) \<Longrightarrow>
     length (cs_colors (compileParts cap cfg s ps)) = max (length (cs_colors s)) (partsEnd a ps)
     \<and> length (cs_textureIds (compileParts cap cfg s ps))
         = max (length (cs_textureIds s)) (partsEnd a ps)"
proof (induction ps arbitrary: a s)
  case Nil
  then show ?case by (simp add: compileParts_def max_def)
next
  case (Cons p ps)
  from Cons.prems have st: "attribStart p = a" and t: "tiles (a + attribSize p) ps" by simp_all
  have e: "compileParts cap cfg s (p # ps) = compileParts cap cfg (compileStep cap cfg s p) ps"
    by (simp add: compileParts_def)
  have l: "a + attribSize p \<le> length (cs_colors (compileStep cap cfg s p))"
          "a + attribSize p \<le> length (cs_textureIds (compileStep cap cfg s p))"
    by (simp_all add: compileStep_lengths st)
  have g: "a + attribSize p \<le> partsEnd (a + attribSize p) ps" by (rule partsEnd_ge)
  from Cons.IH [OF t l] show ?case
    using g by (simp add: e compileStep_lengths st max_def)
qed

lemma compileSim_refl:
  "worldOk (cs_world s) \<Longrightarrow> a \<le> length (cs_colors s) \<Longrightarrow> a \<le> length (cs_textureIds s)
     \<Longrightarrow> compileSim a s s"
  by (simp add: compileSim_def arrRel_def)

lemma compileStart_fields:
  "cs_current (compileStart w g)
     = \<lparr>textureArray = [],
        dc_type = (case batches g of [] \<Rightarrow> TRIANGLES | p # ps \<Rightarrow> primitiveOf (bp_style p)),
        dc_start = 0, dc_size = 0\<rparr>"
  "cs_type (compileStart w g)
     = (case batches g of [] \<Rightarrow> TRIANGLES | p # ps \<Rightarrow> primitiveOf (bp_style p))"
  "cs_count (compileStart w g) = 0"
  "cs_cursor (compileStart w g) = 0"
  "cs_closed (compileStart w g) = []"
  "cs_colors (compileStart w g) = colors g"
  "cs_textureIds (compileStart w g) = textureIds g"
  by (simp_all add: compileStart_def Let_def)

lemma compileStart_sim:
  assumes "worldOk w" and "worldOk w'" and "batches g' = batches g"
  shows "compileSim 0 (compileStart w g) (compileStart w' g')"
  unfolding compileSim_def
  using compileStart_world [OF assms(1), of g] compileStart_world [OF assms(2), of g'] assms(3)
  by (simp add: compileStart_fields arrRel_def)

lemma buildDrawCalls_worldOk:
  assumes "worldOk w"
  shows "worldOk (fst (buildDrawCalls cap cfg (w, g)))"
proof -
  have "compileSim 0 (compileStart w g) (compileStart w g)"
    by (rule compileStart_sim [OF assms assms refl])
  moreover have "\<And>a s ps. compileSim a s s \<Longrightarrow> worldOk (cs_world (compileParts cap cfg s ps))"
  proof -
    fix a s ps
    show "compileSim a s s \<Longrightarrow> worldOk (cs_world (compileParts cap cfg s ps))"
    proof (induction ps arbitrary: a s)
      case Nil
      then show ?case by (simp add: compileParts_def compileSim_def)
    next
      case (Cons p ps)
      have w: "worldOk (cs_world s)" using Cons.prems by (simp add: compileSim_def)
      have "compileSim 0 s s" using w by (simp add: compileSim_def arrRel_def)
      then have "compileSim 0 (changeType cfg s (bp_style p)) (changeType cfg s (bp_style p))"
        by (rule changeType_sim)
      then have "compileSim 0 (fst (assignSlot cfg (changeType cfg s (bp_style p))
                                  (baseTexture (styleTexture (bp_style p)))))
                   (fst (assignSlot cfg (changeType cfg s (bp_style p))
                                  (baseTexture (styleTexture (bp_style p)))))"
        by (rule assignSlot_sim(1))
      then have "worldOk (cs_world (compileStep cap cfg s p))"
        by (simp add: compileStep_def Let_def accumulate_def compileSim_def)
      then have "compileSim 0 (compileStep cap cfg s p) (compileStep cap cfg s p)"
        by (simp add: compileSim_def arrRel_def)
      from Cons.IH [OF this] show ?case by (simp add: compileParts_def)
    qed
  qed
  ultimately show ?thesis by (simp add: buildDrawCalls_def Let_def)
qed

lemma buildDrawCalls_world_keeps:
  "tessLog (fst (buildDrawCalls cap cfg (w, g))) = tessLog w"
  "repeatWrap (fst (buildDrawCalls cap cfg (w, g))) = repeatWrap w"
  "batchPool (fst (buildDrawCalls cap cfg (w, g))) = batchPool w"
proof -
  have step: "tessLog (cs_world (compileStep cap cfg s p)) = tessLog (cs_world s)
            \<and> repeatWrap (cs_world (compileStep cap cfg s p)) = repeatWrap (cs_world s)
            \<and> batchPool (cs_world (compileStep cap cfg s p)) = batchPool (cs_world s)" for s p
    by (simp add: compileStep_def Let_def accumulate_def assignSlot_def bindTexture_def
          openFreshCall_def changeType_def acquireDrawCall_def split: option.split)
  have all: "tessLog (cs_world (compileParts cap cfg s ps)) = tessLog (cs_world s)
            \<and> repeatWrap (cs_world (compileParts cap cfg s ps)) = repeatWrap (cs_world s)
            \<and> batchPool (cs_world (compileParts cap cfg s ps)) = batchPool (cs_world s)" for s ps
  proof (induction ps arbitrary: s)
    case Nil
    show ?case by (simp add: compileParts_def)
  next
    case (Cons p ps)
    have "compileParts cap cfg s (p # ps) = compileParts cap cfg (compileStep cap cfg s p) ps"
      by (simp add: compileParts_def)
    then show ?case using Cons [of "compileStep cap cfg s p"] step [of s p] by simp
  qed
  have st: "tessLog (cs_world (compileStart w g)) = tessLog w
          \<and> repeatWrap (cs_world (compileStart w g)) = repeatWrap w
          \<and> batchPool (cs_world (compileStart w g)) = batchPool w"
    by (simp add: compileStart_def Let_def acquireDrawCall_def)
  show "tessLog (fst (buildDrawCalls cap cfg (w, g))) = tessLog w"
    "repeatWrap (fst (buildDrawCalls cap cfg (w, g))) = repeatWrap w"
    "batchPool (fst (buildDrawCalls cap cfg (w, g))) = batchPool w"
    using all [of "compileStart w g" "batches g"] st
    by (simp_all add: buildDrawCalls_def Let_def)
qed

lemma buildDrawCalls_lengths:
  assumes "tiles 0 (batches g)"
  shows "length (colors (snd (buildDrawCalls cap cfg (w, g))))
           = max (length (colors g)) (partsEnd 0 (batches g))"
    and "length (textureIds (snd (buildDrawCalls cap cfg (w, g))))
           = max (length (textureIds g)) (partsEnd 0 (batches g))"
  using compileParts_lengths [OF assms, of "compileStart w g" cap cfg]
  by (simp_all add: buildDrawCalls_def Let_def compileStart_fields)

lemma buildDrawCalls_agree:
  assumes "worldOk w" and "worldOk w'" and "batches g' = batches g"
    and "tiles 0 (batches g)"
    and "length (colors g) \<le> partsEnd 0 (batches g)"
    and "length (textureIds g) \<le> partsEnd 0 (batches g)"
    and "length (colors g') \<le> partsEnd 0 (batches g)"
    and "length (textureIds g') \<le> partsEnd 0 (batches g)"
  shows "drawCalls (snd (buildDrawCalls cap cfg (w, g))) = drawCalls (snd (buildDrawCalls cap cfg (w', g')))"
    and "colors (snd (buildDrawCalls cap cfg (w, g))) = colors (snd (buildDrawCalls cap cfg (w', g')))"
    and "textureIds (snd (buildDrawCalls cap cfg (w, g)))
           = textureIds (snd (buildDrawCalls cap cfg (w', g')))"
proof -
  define e where "e = partsEnd 0 (batches g)"
  define s where "s = compileParts cap cfg (compileStart w g) (batches g)"
  define s' where "s' = compileParts cap cfg (compileStart w' g') (batches g)"
  have sim: "compileSim e s s'"
    unfolding e_def s_def s'_def
    by (rule compileParts_sim [OF compileStart_sim [OF assms(1,2,3)] assms(4)])
  have t': "tiles 0 (batches g')" using assms(3,4) by simp
  have lc: "length (cs_colors s) = e" "length (cs_textureIds s) = e"
    using buildDrawCalls_lengths [OF assms(4), of cap cfg w] assms(5,6)
    by (simp_all add: buildDrawCalls_def Let_def s_def e_def max_def)
  have lc': "length (cs_colors s') = e" "length (cs_textureIds s') = e"
    using buildDrawCalls_lengths [OF t', of cap cfg w'] assms(3,7,8)
    by (simp_all add: buildDrawCalls_def Let_def s'_def e_def max_def)
  from sim have "take e (cs_colors s) = take e (cs_colors s')"
    and "take e (cs_textureIds s) = take e (cs_textureIds s')"
    by (simp_all add: compileSim_def arrRel_def)
  then have c: "cs_colors s = cs_colors s'" and t: "cs_textureIds s = cs_textureIds s'"
    using lc lc' by simp_all
  from sim have d: "compiledCalls s = compiledCalls s'"
    by (simp add: compileSim_def compiledCalls_def)
  show "drawCalls (snd (buildDrawCalls cap cfg (w, g))) = drawCalls (snd (buildDrawCalls cap cfg (w', g')))"
    using d by (simp add: buildDrawCalls_def Let_def s_def s'_def assms(3))
  show "colors (snd (buildDrawCalls cap cfg (w, g))) = colors (snd (buildDrawCalls cap cfg (w', g')))"
    using c by (simp add: buildDrawCalls_def Let_def s_def s'_def assms(3))
  show "textureIds (snd (buildDrawCalls cap cfg (w, g)))
           = textureIds (snd (buildDrawCalls cap cfg (w', g')))"
    using t by (simp add: buildDrawCalls_def Let_def s_def s'_def assms(3))
qed

subsection \<open>The builder's loop under a change of frame\<close>

lemma reframeG_fields:
  "shapes (reframeG g' ex g) = shapes g @ ex"
  "shapeIndex (reframeG g' ex g) = shapeIndex g"
  "points (reframeG g' ex g) = points g"
  "indices (reframeG g' ex g) = indices g"
  "uvs (reframeG g' ex g) = uvs g"
  "batches (reframeG g' ex g) = batches g"
  "dirty (reframeG g' ex g) = dirty g'"
  "cacheDirty (reframeG g' ex g) = cacheDirty g'"
  "batchDirty (reframeG g' ex g) = batchDirty g'"
  "drawCalls (reframeG g' ex g) = drawCalls g'"
  "colors (reframeG g' ex g) = colors g'"
  "textureIds (reframeG g' ex g) = textureIds g'"
  "batchable (reframeG g' ex g) = batchable g'"
  "indexBuf (reframeG g' ex g) = indexBuf g'"
  "packed (reframeG g' ex g) = packed g'"
  by (simp_all add: reframeG_def)

lemma reframe_fields:
  "bs_open (reframe w' g' ex s) = bs_open s"
  "bs_geom (reframe w' g' ex s) = reframeG g' ex (bs_geom s)"
  "bs_world (reframe w' g' ex s) = reframeW w' (bs_world s)"
  by (simp_all add: reframe_def)

lemma processStyle_reframe:
  "processStyle cap i sr f (reframe w' g' ex s) = reframe w' g' ex (processStyle cap i sr f s)"
proof (cases "if f then fillStyle sr else lineStyle sr")
  case None
  then show ?thesis by (simp add: processStyle_absent(1))
next
  case (Some st)
  show ?thesis
  proof (cases "visible st")
    case False
    then show ?thesis using Some by (simp add: processStyle_absent(2))
  next
    case True
    have e: "processStyle cap i sr f s =
            (let g = bs_geom s;
                 w = bs_world s;
                 index = length (indices g);
                 attribIndex = length (points g);
                 w1 = w\<lparr>repeatWrap := insert (baseTexture (styleTexture st)) (repeatWrap w),
                        tessLog := tessLog w
                           @ replicate (if f then 1 else 1 + length (holes sr)) i\<rparr>;
                 new = (if f then processFill cap sr (points g) (indices g)
                        else processLine cap sr (points g) (indices g));
                 g1 = g\<lparr>points := points g @ fst new, indices := indices g @ snd new\<rparr>
             in if length (fst new) = 0
                then s\<lparr>bs_world := w1, bs_geom := g1\<rparr>
                else
                  (let closing = (case bs_open s of
                                    Some p \<Rightarrow> \<not> mergeable (Some (op_style p)) (Some st)
                                  | None \<Rightarrow> False);
                       bs1 = (case bs_open s of
                                Some p \<Rightarrow>
                                  if closing then batches g1 @ [endPart p index attribIndex]
                                  else batches g1
                              | None \<Rightarrow> batches g1);
                       open1 = (if closing then None else bs_open s);
                       w2 = (case open1 of None \<Rightarrow> acquireBatchPart w1 | Some p \<Rightarrow> w1);
                       open2 = (case open1 of
                                  None \<Rightarrow> beginPart st index attribIndex
                                | Some p \<Rightarrow> p)
                   in \<lparr>bs_world = w2,
                       bs_geom = g1\<lparr>batches := bs1,
                                    uvs := uvs g1
                                      @ addUvs (styleTexture st) (uvMatrix st) (fst new)\<rparr>,
                       bs_open = Some open2\<rparr>))" for s
      using Some True by (simp add: processStyle_def)
    show ?thesis
      unfolding e
      by (cases "bs_open s")
         (simp_all add: reframe_def reframeG_def reframeW_def Let_def acquireBatchPart_def)
  qed
qed

lemma processShape_unfold:
  assumes "shapeIndex (bs_geom s) < length (shapes (bs_geom s))"
  shows "processShape cap s =
     processStyle cap (shapeIndex (bs_geom s))
       (buildWithHoles cap (shapes (bs_geom s) ! shapeIndex (bs_geom s))) False
       (processStyle cap (shapeIndex (bs_geom s))
          (buildWithHoles cap (shapes (bs_geom s) ! shapeIndex (bs_geom s))) True
          (s\<lparr>bs_world := (bs_world s)\<lparr>tessLog := tessLog (bs_world s)
                  @ replicate (buildCalls cap (shapes (bs_geom s) ! shapeIndex (bs_geom s)))
                      (shapeIndex (bs_geom s))\<rparr>,
             bs_geom := (bs_geom s)
               \<lparr>shapes := (shapes (bs_geom s))
                    [shapeIndex (bs_geom s)
                       := buildWithHoles cap (shapes (bs_geom s) ! shapeIndex (bs_geom s))],
                shapeIndex := shapeIndex (bs_geom s) + 1\<rparr>\<rparr>))"
  using assms by (simp add: processShape_def Let_def)

lemma processShape_reframe:
  assumes "shapeIndex (bs_geom s) < length (shapes (bs_geom s))"
  shows "processShape cap (reframe w' g' ex s) = reframe w' g' ex (processShape cap s)"
proof -
  define i where "i = shapeIndex (bs_geom s)"
  define sr where "sr = buildWithHoles cap (shapes (bs_geom s) ! i)"
  define k where "k = buildCalls cap (shapes (bs_geom s) ! i)"
  define s1 where "s1 = s\<lparr>bs_world := (bs_world s)\<lparr>tessLog := tessLog (bs_world s) @ replicate k i\<rparr>,
                       bs_geom := (bs_geom s)\<lparr>shapes := (shapes (bs_geom s))[i := sr],
                                              shapeIndex := i + 1\<rparr>\<rparr>"
  have a: "processShape cap s = processStyle cap i sr False (processStyle cap i sr True s1)"
    unfolding processShape_unfold [OF assms] i_def sr_def k_def s1_def ..
  have lt: "shapeIndex (bs_geom (reframe w' g' ex s)) < length (shapes (bs_geom (reframe w' g' ex s)))"
    using assms by (simp add: reframe_fields reframeG_fields)
  have n: "(shapes (bs_geom s) @ ex) ! i = shapes (bs_geom s) ! i"
    using assms by (simp add: nth_append i_def)
  have u: "(shapes (bs_geom s) @ ex)[i := sr] = (shapes (bs_geom s))[i := sr] @ ex"
    using assms by (simp add: list_update_append i_def)
  have l: "(reframe w' g' ex s)\<lparr>bs_world := (bs_world (reframe w' g' ex s))
                 \<lparr>tessLog := tessLog (bs_world (reframe w' g' ex s)) @ replicate k i\<rparr>,
               bs_geom := (bs_geom (reframe w' g' ex s))
                 \<lparr>shapes := (shapes (bs_geom (reframe w' g' ex s)))[i := sr],
                  shapeIndex := i + 1\<rparr>\<rparr> = reframe w' g' ex s1"
    by (simp add: s1_def reframe_def reframeG_def reframeW_def u)
  have b: "processShape cap (reframe w' g' ex s)
           = processStyle cap i sr False (processStyle cap i sr True (reframe w' g' ex s1))"
    unfolding processShape_unfold [OF lt] l [symmetric]
    by (simp only: reframe_fields reframeG_fields n i_def [symmetric] sr_def [symmetric]
          k_def [symmetric])
  show ?thesis
    unfolding a b by (simp only: processStyle_reframe)
qed

lemma funpow_reframe:
  "shapeIndex (bs_geom s) + k \<le> length (shapes (bs_geom s)) \<Longrightarrow>
     (processShape cap ^^ k) (reframe w' g' ex s) = reframe w' g' ex ((processShape cap ^^ k) s)"
proof (induction k)
  case 0
  show ?case by simp
next
  case (Suc k)
  from Suc.prems have le: "shapeIndex (bs_geom s) + k \<le> length (shapes (bs_geom s))" by simp
  have idx: "shapeIndex (bs_geom ((processShape cap ^^ j) s)) = shapeIndex (bs_geom s) + j"
    if "shapeIndex (bs_geom s) + j \<le> length (shapes (bs_geom s))" for j
    using that
  proof (induction j)
    case 0
    show ?case by simp
  next
    case (Suc j)
    then have ih: "shapeIndex (bs_geom ((processShape cap ^^ j) s)) = shapeIndex (bs_geom s) + j"
      by simp
    have len: "length (shapes (bs_geom ((processShape cap ^^ j) s))) = length (shapes (bs_geom s))"
      by (rule funpow_keeps) (simp add: processShape_keeps)
    show ?case using Suc.prems ih len by (simp add: processShape_index)
  qed
  have len: "length (shapes (bs_geom ((processShape cap ^^ k) s))) = length (shapes (bs_geom s))"
    by (rule funpow_keeps) (simp add: processShape_keeps)
  have lt: "shapeIndex (bs_geom ((processShape cap ^^ k) s))
              < length (shapes (bs_geom ((processShape cap ^^ k) s)))"
    using idx [OF le] len Suc.prems by simp
  show ?case
    using Suc.IH [OF le] processShape_reframe [OF lt] by simp
qed

subsection \<open>A rebuild after one more shape\<close>

lemma funpow_index:
  "shapeIndex (bs_geom s) + j \<le> length (shapes (bs_geom s)) \<Longrightarrow>
     shapeIndex (bs_geom ((processShape cap ^^ j) s)) = shapeIndex (bs_geom s) + j"
proof (induction j)
  case 0
  show ?case by simp
next
  case (Suc j)
  then have ih: "shapeIndex (bs_geom ((processShape cap ^^ j) s)) = shapeIndex (bs_geom s) + j"
    by simp
  have len: "length (shapes (bs_geom ((processShape cap ^^ j) s))) = length (shapes (bs_geom s))"
    by (rule funpow_keeps) (simp add: processShape_keeps)
  show ?case using Suc.prems ih len by (simp add: processShape_index)
qed

lemma buildLoop_index:
  assumes "shapeIndex (bs_geom s) \<le> length (shapes (bs_geom s))"
  shows "shapeIndex (bs_geom (buildLoop cap s)) = length (shapes (bs_geom s))"
  using funpow_index [of s "length (shapes (bs_geom s)) - shapeIndex (bs_geom s)" cap] assms
  by (simp add: buildLoop_def)

lemma reframe_reframe: "reframe a b [] (reframe c d ex s) = reframe a b ex s"
  by (simp add: reframe_def reframeG_def reframeW_def)

lemma closeOpen_reframe: "closeOpen (reframe w' g' ex s) = reframeG g' ex (closeOpen s)"
  by (cases "bs_open s") (simp_all add: closeOpen_def reframe_def reframeG_def)

lemma worldOk_reframeW: "worldOk (reframeW w' w) = worldOk w'"
  by (simp add: worldOk_def reframeW_def)

lemma beginPart_endPart:
  "beginPart (bp_style (endPart p i a)) (indexStart (endPart p i a)) (attribStart (endPart p i a)) = p"
  by (simp add: beginPart_def endPart_def)

lemma resumeBuild_closeOpen:
  assumes "openInv s"
    and "shapes g = shapes (closeOpen s) @ ex" and "shapeIndex g = shapeIndex (closeOpen s)"
    and "points g = points (closeOpen s)" and "indices g = indices (closeOpen s)"
    and "uvs g = uvs (closeOpen s)" and "batches g = batches (closeOpen s)"
    and "tessLog w = tessLog (bs_world s)" and "repeatWrap w = repeatWrap (bs_world s)"
    and "batchPool w = batchPool (bs_world s)"
  shows "resumeBuild w g = reframe w g ex s"
proof -
  have ww: "reframeW w (bs_world s) = w"
    using assms(8,9,10) by (simp add: reframeW_def)
  show ?thesis
  proof (cases "bs_open s")
    case None
    with assms(1) have e: "batches (bs_geom s) = []" by (simp add: openInv_def)
    have c: "closeOpen s = bs_geom s" using None by (simp add: closeOpen_def)
    have gg: "reframeG g ex (bs_geom s) = g"
      using assms(2-7) by (simp add: reframeG_def c)
    have "resumeBuild w g = \<lparr>bs_world = w, bs_geom = g, bs_open = None\<rparr>"
      using assms(7) e by (simp add: resumeBuild_def c)
    then show ?thesis using None by (simp add: reframe_def ww gg)
  next
    case (Some p)
    define q where "q = endPart p (length (indices (bs_geom s))) (length (points (bs_geom s)))"
    have b: "batches g = batches (bs_geom s) @ [q]"
      using Some assms(7) by (simp add: closeOpen_def q_def)
    have gg: "reframeG g ex (bs_geom s) = g\<lparr>batches := batches (bs_geom s)\<rparr>"
      using assms(2-6) by (simp add: reframeG_def closeOpen_keeps)
    have "resumeBuild w g = \<lparr>bs_world = w, bs_geom = g\<lparr>batches := batches (bs_geom s)\<rparr>,
             bs_open = Some (beginPart (bp_style q) (indexStart q) (attribStart q))\<rparr>"
      unfolding resumeBuild_def b by (cases "batches (bs_geom s)") simp_all
    then show ?thesis
      using Some by (simp add: reframe_def ww gg q_def beginPart_endPart)
  qed
qed

lemma closeOpen_styles:
  "bp_style ` set (batches (closeOpen s))
     = bp_style ` set (batches (bs_geom s))
       \<union> (case bs_open s of None \<Rightarrow> {} | Some p \<Rightarrow> {op_style p})"
  by (cases "bs_open s") (simp_all add: closeOpen_def endPart_def)

lemma processStyle_mono:
  "bp_style ` set (batches (closeOpen s))
     \<subseteq> bp_style ` set (batches (closeOpen (processStyle cap i sr f s)))"
  "length (points (bs_geom s)) \<le> length (points (bs_geom (processStyle cap i sr f s)))"
proof -
  have "bp_style ` set (batches (closeOpen s))
     \<subseteq> bp_style ` set (batches (closeOpen (processStyle cap i sr f s)))
     \<and> length (points (bs_geom s)) \<le> length (points (bs_geom (processStyle cap i sr f s)))"
  proof (cases "if f then fillStyle sr else lineStyle sr")
    case None
    then show ?thesis using processStyle_absent(1) [OF None] by simp
  next
    case (Some st)
    show ?thesis
    proof (cases "visible st")
      case False
      then show ?thesis using processStyle_absent(2) [OF Some] by simp
    next
      case True
      define new where "new = (if f then processFill cap sr (points (bs_geom s)) (indices (bs_geom s))
              else processLine cap sr (points (bs_geom s)) (indices (bs_geom s)))"
      show ?thesis
      proof (cases "fst new = []")
        case e: True
        then show ?thesis
          using processStyle_skip [OF Some True, of cap s i]
          by (simp add: closeOpen_styles new_def)
      next
        case ne: False
        note a = processStyle_appended [OF Some True new_def ne]
        show ?thesis
        proof (cases "bs_open s")
          case None
          with a(1) a(4) show ?thesis
            by (auto simp add: closeOpen_styles)
        next
          case p: (Some p)
          show ?thesis
            using a(2,3) [OF p] a(4) p
            by (cases "mergeable (Some (op_style p)) (Some st)")
               (auto simp add: closeOpen_styles endPart_def)
        qed
      qed
    qed
  qed
  then show "bp_style ` set (batches (closeOpen s))
     \<subseteq> bp_style ` set (batches (closeOpen (processStyle cap i sr f s)))"
    "length (points (bs_geom s)) \<le> length (points (bs_geom (processStyle cap i sr f s)))"
    by simp_all
qed

lemma processStyle_log:
  "\<exists>k. tessLog (bs_world (processStyle cap i sr f s)) = tessLog (bs_world s) @ replicate k i"
proof (cases "if f then fillStyle sr else lineStyle sr")
  case None
  have "tessLog (bs_world s) = tessLog (bs_world s) @ replicate 0 i" by simp
  then show ?thesis unfolding processStyle_absent(1) [OF None] by (rule exI)
next
  case (Some st)
  show ?thesis
  proof (cases "visible st")
    case False
    have "tessLog (bs_world s) = tessLog (bs_world s) @ replicate 0 i" by simp
    then show ?thesis unfolding processStyle_absent(2) [OF Some False] by (rule exI)
  next
    case True
    have "tessLog (bs_world (processStyle cap i sr f s))
            = tessLog (bs_world s) @ replicate (if f then 1 else 1 + length (holes sr)) i"
      using Some True
      by (cases "bs_open s")
         (simp_all add: processStyle_def Let_def acquireBatchPart_def)
    then show ?thesis by (rule exI)
  qed
qed

lemma processShape_mono:
  "bp_style ` set (batches (closeOpen s))
     \<subseteq> bp_style ` set (batches (closeOpen (processShape cap s)))"
  "length (points (bs_geom s)) \<le> length (points (bs_geom (processShape cap s)))"
proof -
  show "bp_style ` set (batches (closeOpen s))
     \<subseteq> bp_style ` set (batches (closeOpen (processShape cap s)))"
  proof (cases "shapeIndex (bs_geom s) < length (shapes (bs_geom s))")
    case False
    then show ?thesis by (simp add: processShape_def)
  next
    case True
    define i where "i = shapeIndex (bs_geom s)"
    define sr where "sr = buildWithHoles cap (shapes (bs_geom s) ! i)"
    define s1 where "s1 = s\<lparr>bs_world := (bs_world s)\<lparr>tessLog := tessLog (bs_world s)
                  @ replicate (buildCalls cap (shapes (bs_geom s) ! i)) i\<rparr>,
             bs_geom := (bs_geom s)\<lparr>shapes := (shapes (bs_geom s))[i := sr],
                shapeIndex := i + 1\<rparr>\<rparr>"
    have a: "processShape cap s = processStyle cap i sr False (processStyle cap i sr True s1)"
      unfolding processShape_unfold [OF True] i_def sr_def s1_def ..
    have "bp_style ` set (batches (closeOpen s)) = bp_style ` set (batches (closeOpen s1))"
      by (simp add: closeOpen_styles s1_def)
    also have "\<dots> \<subseteq> bp_style ` set (batches (closeOpen (processStyle cap i sr True s1)))"
      by (rule processStyle_mono)
    also have "\<dots> \<subseteq> bp_style ` set (batches (closeOpen (processShape cap s)))"
      unfolding a by (rule processStyle_mono)
    finally show ?thesis .
  qed
  show "length (points (bs_geom s)) \<le> length (points (bs_geom (processShape cap s)))"
  proof (cases "shapeIndex (bs_geom s) < length (shapes (bs_geom s))")
    case False
    then show ?thesis by (simp add: processShape_def)
  next
    case True
    define i where "i = shapeIndex (bs_geom s)"
    define sr where "sr = buildWithHoles cap (shapes (bs_geom s) ! i)"
    define s1 where "s1 = s\<lparr>bs_world := (bs_world s)\<lparr>tessLog := tessLog (bs_world s)
                  @ replicate (buildCalls cap (shapes (bs_geom s) ! i)) i\<rparr>,
             bs_geom := (bs_geom s)\<lparr>shapes := (shapes (bs_geom s))[i := sr],
                shapeIndex := i + 1\<rparr>\<rparr>"
    have a: "processShape cap s = processStyle cap i sr False (processStyle cap i sr True s1)"
      unfolding processShape_unfold [OF True] i_def sr_def s1_def ..
    have "length (points (bs_geom s)) = length (points (bs_geom s1))"
      by (simp add: s1_def)
    also have "\<dots> \<le> length (points (bs_geom (processStyle cap i sr True s1)))"
      by (rule processStyle_mono)
    also have "\<dots> \<le> length (points (bs_geom (processShape cap s)))"
      unfolding a by (rule processStyle_mono)
    finally show ?thesis .
  qed
qed

lemma buildCalls_pos: "0 < buildCalls cap sr"
  by (simp add: buildCalls_def Let_def)

lemma processShape_log:
  assumes "shapeIndex (bs_geom s) < length (shapes (bs_geom s))"
  shows "\<exists>k. 0 < k \<and> tessLog (bs_world (processShape cap s))
            = tessLog (bs_world s) @ replicate k (shapeIndex (bs_geom s))"
proof -
  define i where "i = shapeIndex (bs_geom s)"
  define sr where "sr = buildWithHoles cap (shapes (bs_geom s) ! i)"
  define c where "c = buildCalls cap (shapes (bs_geom s) ! i)"
  define s1 where "s1 = s\<lparr>bs_world := (bs_world s)\<lparr>tessLog := tessLog (bs_world s)
                  @ replicate c i\<rparr>,
             bs_geom := (bs_geom s)\<lparr>shapes := (shapes (bs_geom s))[i := sr],
                shapeIndex := i + 1\<rparr>\<rparr>"
  have a: "processShape cap s = processStyle cap i sr False (processStyle cap i sr True s1)"
    unfolding processShape_unfold [OF assms] i_def sr_def s1_def c_def ..
  obtain k1 where k1: "tessLog (bs_world (processStyle cap i sr True s1))
                         = tessLog (bs_world s1) @ replicate k1 i"
    using processStyle_log by blast
  obtain k2 where k2: "tessLog (bs_world (processShape cap s))
                         = tessLog (bs_world (processStyle cap i sr True s1)) @ replicate k2 i"
    unfolding a using processStyle_log by blast
  have "tessLog (bs_world (processShape cap s)) = tessLog (bs_world s) @ replicate (c + k1 + k2) i"
    unfolding k2 k1 by (simp add: s1_def replicate_add)
  moreover have "0 < c + k1 + k2" using buildCalls_pos [of cap] by (simp add: c_def)
  ultimately show ?thesis unfolding i_def by blast
qed

lemma closeOpen_mono:
  "batches (closeOpen (processShape cap s)) = [] \<Longrightarrow> batches (closeOpen s) = []"
  "isBatchable cfg (closeOpen (processShape cap s)) \<Longrightarrow> isBatchable cfg (closeOpen s)"
proof -
  note m = processShape_mono [of s cap]
  show "batches (closeOpen (processShape cap s)) = [] \<Longrightarrow> batches (closeOpen s) = []"
    using m(1) by simp
  assume b: "isBatchable cfg (closeOpen (processShape cap s))"
  have "\<not> native (bp_style p)" if "p \<in> set (batches (closeOpen s))" for p
  proof -
    from that m(1) have "bp_style p \<in> bp_style ` set (batches (closeOpen (processShape cap s)))"
      by blast
    then obtain q where "q \<in> set (batches (closeOpen (processShape cap s)))"
      and "bp_style q = bp_style p" by auto
    with b show ?thesis by (auto simp add: isBatchable_iff)
  qed
  then show "isBatchable cfg (closeOpen s)"
    using b m(2) by (simp add: isBatchable_iff closeOpen_keeps)
qed

section \<open>The claims about the geometry\<close>
















end
